theory Spec2Isabelle
  imports Main
begin

text \<open>
  A model of \<open>index.js\<close>, the \<open>send\<close> function that resolves a request path to a file
  below a root directory and prepares the response of a koa context, together with the
  functions of the platform and of the packages it calls, and the properties of \<open>send\<close>
  proved on the model.
\<close>

section \<open>Strings\<close>

text \<open>
  JavaScript strings are modelled as \<^typ>\<open>string\<close>; a character outside ASCII is the
  sequence of its UTF-8 bytes. All string operations of \<open>index.js\<close> that look at
  individual characters look at ASCII characters only (\<open>/\<close>, \<open>.\<close>, \<open>%\<close>).
\<close>

definition starts_with :: "char \<Rightarrow> string \<Rightarrow> bool" where
  "starts_with c s = (case s of [] \<Rightarrow> False | x # _ \<Rightarrow> x = c)"

definition ends_with :: "char \<Rightarrow> string \<Rightarrow> bool" where
  "ends_with c s = (case rev s of [] \<Rightarrow> False | x # _ \<Rightarrow> x = c)"

text \<open>\<open>s.split(c)\<close>: never empty, \<open>''''.split(c)\<close> is \<open>['''']\<close>.\<close>

fun split_on :: "char \<Rightarrow> string \<Rightarrow> string list" where
  "split_on c [] = [[]]"
| "split_on c (x # xs) =
     (if x = c then [] # split_on c xs
      else (case split_on c xs of [] \<Rightarrow> [[x]] | s # ss \<Rightarrow> (x # s) # ss))"

text \<open>\<open>xs.join(sep)\<close>.\<close>

fun join_with :: "string \<Rightarrow> string list \<Rightarrow> string" where
  "join_with s [] = []"
| "join_with s [x] = x"
| "join_with s (x # y # ys) = x @ s @ join_with s (y # ys)"

text \<open>\<open>String.prototype.toLowerCase\<close> on ASCII letters (header field names).\<close>

definition lower_char :: "char \<Rightarrow> char" where
  "lower_char c =
     (let n = (of_char c :: nat) in if 65 \<le> n \<and> n \<le> 90 then char_of (n + 32) else c)"

definition toLowerCase :: "string \<Rightarrow> string" where
  "toLowerCase s = map lower_char s"

text \<open>Decimal rendering of a number by a template literal or by a header setter.\<close>

fun digits_of :: "nat \<Rightarrow> string" where
  "digits_of n =
     (if n < 10 then [char_of (48 + n)] else digits_of (n div 10) @ [char_of (48 + n mod 10)])"

definition string_of_int :: "int \<Rightarrow> string" where
  "string_of_int k = (if k < 0 then CHR ''-'' # digits_of (nat (- k)) else digits_of (nat k))"

section \<open>The \<open>path\<close> module (POSIX)\<close>

text \<open>
  \<open>index.js\<close> imports \<open>normalize\<close>, \<open>basename\<close>, \<open>extname\<close>, \<open>resolve\<close>, \<open>parse\<close> and
  \<open>sep\<close> from the platform's \<open>path\<close> module. They are modelled for a POSIX platform,
  where the separator is \<open>/\<close>.
\<close>

definition sep :: char where
  "sep = CHR ''/''"

text \<open>
  One step of the segment walk of \<open>normalizeString\<close>. The stack holds the segments kept so
  far, the last one first. \<open>allowAboveRoot\<close> is true for a relative path.
\<close>

definition norm_step :: "bool \<Rightarrow> string list \<Rightarrow> string \<Rightarrow> string list" where
  "norm_step allowAboveRoot stk seg =
     (if seg = [] \<or> seg = ''.'' then stk
      else if seg = ''..'' then
        (case stk of
           [] \<Rightarrow> if allowAboveRoot then [''..''] else []
         | s # rest \<Rightarrow>
             if s = ''..'' then (if allowAboveRoot then ''..'' # stk else stk) else rest)
      else seg # stk)"

definition normalizeString :: "string \<Rightarrow> bool \<Rightarrow> string" where
  "normalizeString p allowAboveRoot =
     join_with ''/'' (rev (foldl (norm_step allowAboveRoot) [] (split_on sep p)))"

definition isAbsolute :: "string \<Rightarrow> bool" where
  "isAbsolute p = starts_with sep p"

definition normalize_path :: "string \<Rightarrow> string" where
  "normalize_path p =
     (if p = [] then ''.''
      else
        let trailingSeparator = ends_with sep p;
            q = normalizeString p (\<not> isAbsolute p)
        in if q = [] then (if isAbsolute p then ''/'' else if trailingSeparator then ''./'' else ''.'')
           else (if isAbsolute p then ''/'' else []) @ q @ (if trailingSeparator then ''/'' else []))"

text \<open>\<open>resolve(p)\<close> with one argument, in a process whose working directory is \<open>cwd\<close>
  (an absolute path).\<close>

definition resolve :: "string \<Rightarrow> string \<Rightarrow> string" where
  "resolve cwd p =
     (let resolvedPath =
            (if p = [] then cwd @ ''/''
             else if isAbsolute p then p @ ''/''
             else cwd @ ''/'' @ p @ ''/'')
      in ''/'' @ normalizeString resolvedPath False)"

text \<open>\<open>join(a, b)\<close> with two arguments.\<close>

definition join :: "string \<Rightarrow> string \<Rightarrow> string" where
  "join a b =
     (if a = [] \<and> b = [] then ''.''
      else if a = [] then normalize_path b
      else if b = [] then normalize_path a
      else normalize_path (a @ ''/'' @ b))"

text \<open>\<open>parse(p).root\<close>.\<close>

definition parse_root :: "string \<Rightarrow> string" where
  "parse_root p = (if isAbsolute p then ''/'' else [])"

text \<open>\<open>basename(p)\<close>: trailing separators are dropped, then the last segment is taken.\<close>

definition basename :: "string \<Rightarrow> string" where
  "basename p = rev (takeWhile (\<lambda>c. c \<noteq> sep) (dropWhile (\<lambda>c. c = sep) (rev p)))"

text \<open>\<open>basename(p, ext)\<close>: the suffix is removed from the last segment, unless the segment
  is the suffix itself.\<close>

definition basename_ext :: "string \<Rightarrow> string \<Rightarrow> string" where
  "basename_ext p ext =
     (if ext = [] \<or> length p < length ext then basename p
      else if ext = p then []
      else
        let b = basename p; k = length b - length ext
        in if length ext < length b \<and> drop k b = ext then take k b else b)"

text \<open>\<open>extname(p)\<close>: from the last dot of the last segment; empty when there is no dot,
  when the only dot is the first character, and for \<open>..\<close>.\<close>

definition extname :: "string \<Rightarrow> string" where
  "extname p =
     (let b = basename p;
          tail = rev (takeWhile (\<lambda>c. c \<noteq> CHR ''.'') (rev b))
      in if CHR ''.'' \<notin> set b \<or> b = ''..'' \<or> length b = Suc (length tail) then []
         else drop (length b - Suc (length tail)) b)"

section \<open>\<open>decodeURIComponent\<close>\<close>

text \<open>
  The built-in reads the string from left to right. A character other than \<open>%\<close> stands
  for itself. \<open>%\<close> must be followed by two hexadecimal digits, which give an octet; an
  octet below 128 is an ASCII character, any other octet must open a well-formed UTF-8
  sequence whose further octets are all written as escapes. Everything else is a
  \<open>URIError\<close>, here \<open>None\<close>.
\<close>

datatype token = Lit char | Esc nat

definition hex_val :: "char \<Rightarrow> nat option" where
  "hex_val c =
     (let n = (of_char c :: nat)
      in if 48 \<le> n \<and> n \<le> 57 then Some (n - 48)
         else if 65 \<le> n \<and> n \<le> 70 then Some (n - 55)
         else if 97 \<le> n \<and> n \<le> 102 then Some (n - 87)
         else None)"

fun tokens :: "string \<Rightarrow> token list option" where
  "tokens [] = Some []"
| "tokens (c # cs) =
     (if c = CHR ''%'' then
        (case cs of
           h1 # h2 # rest \<Rightarrow>
             (case hex_val h1 of
                None \<Rightarrow> None
              | Some a \<Rightarrow>
                  (case hex_val h2 of
                     None \<Rightarrow> None
                   | Some b \<Rightarrow> map_option ((#) (Esc (16 * a + b))) (tokens rest)))
         | _ \<Rightarrow> None)
      else map_option ((#) (Lit c)) (tokens cs))"

definition cont :: "nat \<Rightarrow> bool" where
  "cont b = (128 \<le> b \<and> b < 192)"

text \<open>Number of octets announced by the first octet of a sequence; 0 when the octet cannot
  open a sequence.\<close>

definition seq_len :: "nat \<Rightarrow> nat" where
  "seq_len b =
     (if b < 192 then 0 else if b < 224 then 2 else if b < 240 then 3
      else if b < 248 then 4 else 0)"

text \<open>Well-formed UTF-8 sequences of two to four octets (no overlong forms, no surrogates,
  nothing beyond U+10FFFF).\<close>

fun utf8_ok :: "nat list \<Rightarrow> bool" where
  "utf8_ok [b0, b1] = (194 \<le> b0 \<and> b0 < 224 \<and> cont b1)"
| "utf8_ok [b0, b1, b2] =
     (((b0 = 224 \<and> 160 \<le> b1 \<and> b1 < 192) \<or> (225 \<le> b0 \<and> b0 < 237 \<and> cont b1)
        \<or> (b0 = 237 \<and> 128 \<le> b1 \<and> b1 < 160) \<or> (238 \<le> b0 \<and> b0 < 240 \<and> cont b1))
      \<and> cont b2)"
| "utf8_ok [b0, b1, b2, b3] =
     (((b0 = 240 \<and> 144 \<le> b1 \<and> b1 < 192) \<or> (241 \<le> b0 \<and> b0 < 244 \<and> cont b1)
        \<or> (b0 = 244 \<and> 128 \<le> b1 \<and> b1 < 144))
      \<and> cont b2 \<and> cont b3)"
| "utf8_ok _ = False"

fun esc_bytes :: "token list \<Rightarrow> nat list option" where
  "esc_bytes [] = Some []"
| "esc_bytes (Esc b # ts) = map_option ((#) b) (esc_bytes ts)"
| "esc_bytes (Lit c # ts) = None"

function decode_tokens :: "token list \<Rightarrow> string option" where
  "decode_tokens [] = Some []"
| "decode_tokens (Lit c # ts) = map_option ((#) c) (decode_tokens ts)"
| "decode_tokens (Esc b # ts) =
     (if b < 128 then map_option ((#) (char_of b)) (decode_tokens ts)
      else
        let n = seq_len b
        in if n = 0 \<or> length ts < n - 1 then None
           else
             (case esc_bytes (take (n - 1) ts) of
                None \<Rightarrow> None
              | Some bs \<Rightarrow>
                  if utf8_ok (b # bs)
                  then map_option ((@) (map char_of (b # bs))) (decode_tokens (drop (n - 1) ts))
                  else None))"
  by pat_completeness auto
termination
  by (relation "measure length") auto

definition decodeURIComponent :: "string \<Rightarrow> string option" where
  "decodeURIComponent s = (case tokens s of None \<Rightarrow> None | Some ts \<Rightarrow> decode_tokens ts)"

section \<open>The \<open>resolve-path\<close> package\<close>

text \<open>
  \<open>resolvePath(root, path)\<close> refuses a path with a NUL character or an absolute path
  (POSIX or Windows form) with status 400, and a path whose normal form still has a
  \<open>..\<close> segment with status 403; otherwise it joins the path onto the resolved root.
\<close>

datatype fs_error = FsError (code: string)

datatype error =
    AssertionError string
  | TypeError string
  | HttpError nat string
  | StatError nat fs_error

definition is_slash :: "char \<Rightarrow> bool" where
  "is_slash c = (c = CHR ''/'' \<or> c = CHR 0x5C)"

definition is_alpha :: "char \<Rightarrow> bool" where
  "is_alpha c =
     (let n = (of_char c :: nat) in (65 \<le> n \<and> n \<le> 90) \<or> (97 \<le> n \<and> n \<le> 122))"

definition win32_isAbsolute :: "string \<Rightarrow> bool" where
  "win32_isAbsolute p =
     (case p of
        [] \<Rightarrow> False
      | c # rest \<Rightarrow>
          is_slash c \<or>
          (is_alpha c \<and> (case rest of d # e # _ \<Rightarrow> d = CHR '':'' \<and> is_slash e | _ \<Rightarrow> False)))"

text \<open>The regular expression \<open>/(?:^|[\\/])\.\.(?:[\\/]|$)/\<close>.\<close>

definition up_at :: "string \<Rightarrow> bool" where
  "up_at s =
     (case s of
        a # b # rest \<Rightarrow>
          a = CHR ''.'' \<and> b = CHR ''.'' \<and> (case rest of [] \<Rightarrow> True | c # _ \<Rightarrow> is_slash c)
      | _ \<Rightarrow> False)"

fun up_scan :: "string \<Rightarrow> bool" where
  "up_scan [] = False"
| "up_scan (c # cs) = ((is_slash c \<and> up_at cs) \<or> up_scan cs)"

definition UP_PATH_REGEXP :: "string \<Rightarrow> bool" where
  "UP_PATH_REGEXP s = (up_at s \<or> up_scan s)"

definition resolvePath :: "string \<Rightarrow> string \<Rightarrow> string \<Rightarrow> error + string" where
  "resolvePath cwd root path =
     (if CHR 0x00 \<in> set path then Inl (HttpError 400 ''Malicious Path'')
      else if isAbsolute path \<or> win32_isAbsolute path then Inl (HttpError 400 ''Malicious Path'')
      else if UP_PATH_REGEXP (normalize_path (''.'' @ [sep] @ path))
        then Inl (HttpError 403 ''Forbidden'')
      else Inr (normalize_path (join (resolve cwd root) path)))"

section \<open>Data of a request\<close>

text \<open>A value found in a slot of the \<open>extensions\<close> array.\<close>

datatype jsval = JUndefined | JNull | JBool bool | JNum int | JStr string

record stats =
  is_directory :: bool
  st_size :: nat
  st_mtime :: string

text \<open>
  The \<open>setHeaders\<close> option as the code tells its values apart: a falsy value (absent), a
  truthy value that is not a function, or a function, which receives the response, the
  final path and the stats and may rewrite the header fields. A function is taken to
  return; what it does besides writing header fields is not modelled.
\<close>

datatype hook =
    NoHook
  | NotAFunction
  | Hook "(string \<rightharpoonup> string) \<Rightarrow> string \<Rightarrow> stats \<Rightarrow> (string \<rightharpoonup> string)"

text \<open>The options object; \<open>None\<close> is a key that is not supplied.\<close>

record opts =
  opt_root :: "string option"
  opt_index :: "string option"
  opt_maxage :: "int option"
  opt_maxAge :: "int option"
  opt_immutable :: "bool option"
  opt_hidden :: "bool option"
  opt_format :: "bool option"
  opt_extensions :: "jsval list option"
  opt_brotli :: "bool option"
  opt_gzip :: "bool option"
  opt_setHeaders :: hook

text \<open>
  What the process and the file system answer. \<open>fs_access\<close> tells whether \<open>fs.access\<close>
  succeeds, \<open>fs_stat\<close> is the result of \<open>fs.stat\<close>, \<open>mime_lookup\<close> is the content type
  the framework finds for an extension. The file system does not change during a call.
\<close>

record env =
  cwd :: string
  fs_access :: "string \<Rightarrow> bool"
  fs_stat :: "string \<Rightarrow> fs_error + stats"
  mime_lookup :: "string \<Rightarrow> string option"

text \<open>
  The koa context: the negotiation of the request (\<open>None\<close> is the answer \<open>false\<close>), the
  header fields of the response under their lower-case names, the body (the path of the
  file a stream reads), the status code and whether it has been set explicitly.
\<close>

record koa_context =
  acceptsEncodings :: "string list \<Rightarrow> string option"
  header :: "string \<rightharpoonup> string"
  body :: "string option"
  status :: nat
  explicitStatus :: bool

datatype fs_call = Access string | Stat string

datatype outcome = Resolved string | NotApplicable | Failed error

text \<open>A call of \<open>send\<close> ends with an outcome, the context as it leaves it, and the file
  system calls it made, in order.\<close>

record result =
  outcome :: outcome
  ctx_out :: koa_context
  calls :: "fs_call list"

subsection \<open>The context's operations\<close>

definition ctx_set :: "string \<Rightarrow> string \<Rightarrow> koa_context \<Rightarrow> koa_context" where
  "ctx_set field val ctx = ctx\<lparr>header := (header ctx)(toLowerCase field \<mapsto> val)\<rparr>"

definition removeHeader :: "string \<Rightarrow> koa_context \<Rightarrow> koa_context" where
  "removeHeader field ctx = ctx\<lparr>header := (header ctx)(toLowerCase field := None)\<rparr>"

text \<open>\<open>ctx.response.get(field)\<close>: the empty string when the field is not set.\<close>

definition response_get :: "string \<Rightarrow> koa_context \<Rightarrow> string" where
  "response_get field ctx = (case header ctx (toLowerCase field) of None \<Rightarrow> [] | Some v \<Rightarrow> v)"

text \<open>The getter and the setter of \<open>ctx.type\<close>.\<close>

definition ctx_type :: "koa_context \<Rightarrow> string" where
  "ctx_type ctx = takeWhile (\<lambda>c. c \<noteq> CHR '';'') (response_get ''Content-Type'' ctx)"

definition set_ctx_type :: "env \<Rightarrow> string \<Rightarrow> koa_context \<Rightarrow> koa_context" where
  "set_ctx_type e t ctx =
     (case mime_lookup e t of
        Some full \<Rightarrow> if full = [] then removeHeader ''Content-Type'' ctx
                     else ctx_set ''Content-Type'' full ctx
      | None \<Rightarrow> removeHeader ''Content-Type'' ctx)"

text \<open>
  The setter of \<open>ctx.body\<close> for a stream: the status becomes 200 unless one has been set,
  \<open>Content-Length\<close> is removed when a body is replaced, and a response without a
  \<open>Content-Type\<close> field gets the type of \<open>bin\<close>.
\<close>

definition response_has :: "string \<Rightarrow> koa_context \<Rightarrow> bool" where
  "response_has field ctx = (case header ctx (toLowerCase field) of None \<Rightarrow> False | Some v \<Rightarrow> True)"

definition set_status :: "nat \<Rightarrow> koa_context \<Rightarrow> koa_context" where
  "set_status c ctx = ctx\<lparr>status := c, explicitStatus := True\<rparr>"

definition set_body :: "env \<Rightarrow> string \<Rightarrow> koa_context \<Rightarrow> koa_context" where
  "set_body e path ctx =
     (let original = body ctx;
          ctx1 = ctx\<lparr>body := Some path\<rparr>;
          ctx2 = (if explicitStatus ctx1 then ctx1 else set_status 200 ctx1);
          setType = (\<not> response_has ''Content-Type'' ctx2);
          ctx3 = (case original of None \<Rightarrow> ctx2 | Some b \<Rightarrow> removeHeader ''Content-Length'' ctx2)
      in if setType then set_ctx_type e ''bin'' ctx3 else ctx3)"

section \<open>\<open>index.js\<close>\<close>

subsection \<open>Helpers\<close>

text \<open>\<open>exists(path)\<close>: \<open>fs.access\<close> with every error swallowed.\<close>

definition exists :: "env \<Rightarrow> string \<Rightarrow> bool" where
  "exists e path = fs_access e path"

fun hidden_loop :: "string list \<Rightarrow> bool" where
  "hidden_loop [] = False"
| "hidden_loop (seg # segs) = (if starts_with CHR ''.'' seg then True else hidden_loop segs)"

definition isHidden :: "string \<Rightarrow> string \<Rightarrow> bool" where
  "isHidden root path = hidden_loop (split_on sep (drop (length root) path))"

definition type :: "string \<Rightarrow> string \<Rightarrow> string" where
  "type file ext = (if ext \<noteq> [] then extname (basename_ext file ext) else extname file)"

text \<open>\<open>decode(path)\<close>: \<open>None\<close> stands for the value \<open>-1\<close>.\<close>

definition decode :: "string \<Rightarrow> string option" where
  "decode path = decodeURIComponent path"

subsection \<open>Reading the options\<close>

text \<open>\<open>a || b\<close> on a number that may be absent: 0 is falsy.\<close>

definition or_num :: "int option \<Rightarrow> int \<Rightarrow> int" where
  "or_num a b = (case a of None \<Rightarrow> b | Some m \<Rightarrow> if m = 0 then b else m)"

definition maxage_of :: "opts \<Rightarrow> int" where
  "maxage_of opt = or_num (opt_maxage opt) (or_num (opt_maxAge opt) 0)"

definition truthy_str :: "string option \<Rightarrow> bool" where
  "truthy_str a = (case a of None \<Rightarrow> False | Some s \<Rightarrow> s \<noteq> [])"

definition str_of :: "string option \<Rightarrow> string" where
  "str_of a = (case a of None \<Rightarrow> [] | Some s \<Rightarrow> s)"

definition root_of :: "env \<Rightarrow> opts \<Rightarrow> string" where
  "root_of e opt =
     (if truthy_str (opt_root opt) then normalize_path (resolve (cwd e) (str_of (opt_root opt)))
      else [])"

definition immutable_of :: "opts \<Rightarrow> bool" where
  "immutable_of opt = (opt_immutable opt = Some True)"

definition hidden_of :: "opts \<Rightarrow> bool" where
  "hidden_of opt = (opt_hidden opt = Some True)"

definition format_of :: "opts \<Rightarrow> bool" where
  "format_of opt = (opt_format opt \<noteq> Some False)"

definition brotli_of :: "opts \<Rightarrow> bool" where
  "brotli_of opt = (opt_brotli opt \<noteq> Some False)"

definition gzip_of :: "opts \<Rightarrow> bool" where
  "gzip_of opt = (opt_gzip opt \<noteq> Some False)"

text \<open>\<open>setHeaders && typeof setHeaders !== 'function'\<close>.\<close>

definition not_callable :: "hook \<Rightarrow> bool" where
  "not_callable h = (case h of NotAFunction \<Rightarrow> True | _ \<Rightarrow> False)"

subsection \<open>Precompressed variants (lines 113 to 125)\<close>

text \<open>The result is the path, \<open>encodingExt\<close>, the context and the calls made.\<close>

definition negotiate ::
  "env \<Rightarrow> koa_context \<Rightarrow> opts \<Rightarrow> string \<Rightarrow> string \<times> string \<times> koa_context \<times> fs_call list" where
  "negotiate e ctx opt path =
     (let br = (acceptsEncodings ctx [''br'', ''identity''] = Some ''br'' \<and> brotli_of opt);
          calls1 = (if br then [Access (path @ ''.br'')] else [])
      in if br \<and> exists e (path @ ''.br'')
         then (path @ ''.br'', ''.br'',
               removeHeader ''Content-Length'' (ctx_set ''Content-Encoding'' ''br'' ctx), calls1)
         else
           let gz = (acceptsEncodings ctx [''gzip'', ''identity''] = Some ''gzip'' \<and> gzip_of opt);
               calls2 = calls1 @ (if gz then [Access (path @ ''.gz'')] else [])
           in if gz \<and> exists e (path @ ''.gz'')
              then (path @ ''.gz'', ''.gz'',
                    removeHeader ''Content-Length'' (ctx_set ''Content-Encoding'' ''gzip'' ctx),
                    calls2)
              else (path, [], ctx, calls2))"

subsection \<open>Extension fallback (lines 127 to 141)\<close>

text \<open>\<open>if (!/^\./.exec(ext)) ext = `.${ext}`\<close>.\<close>

definition with_dot :: "string \<Rightarrow> string" where
  "with_dot ext = (if starts_with CHR ''.'' ext then ext else ''.'' @ ext)"

fun ext_loop :: "env \<Rightarrow> string \<Rightarrow> jsval list \<Rightarrow> (error + string) \<times> fs_call list" where
  "ext_loop e path [] = (Inr path, [])"
| "ext_loop e path (JStr ext0 # list) =
     (let ext = with_dot ext0
      in if exists e (path @ ext) then (Inr (path @ ext), [Access (path @ ext)])
         else (case ext_loop e path list of (r, cs) \<Rightarrow> (r, Access (path @ ext) # cs)))"
| "ext_loop e path (_ # list) =
     (Inl (TypeError ''option extensions must be array of strings or false''), [])"

definition extension_fallback ::
  "env \<Rightarrow> opts \<Rightarrow> string \<Rightarrow> (error + string) \<times> fs_call list" where
  "extension_fallback e opt path =
     (case opt_extensions opt of
        None \<Rightarrow> (Inr path, [])
      | Some list \<Rightarrow>
          if CHR ''.'' \<in> set (basename path) then (Inr path, []) else ext_loop e path list)"

subsection \<open>Stat and directory index (lines 143 to 167)\<close>

definition notfound :: "string list" where
  "notfound = [''ENOENT'', ''ENAMETOOLONG'', ''ENOTDIR'']"

definition stat_failure :: "fs_error \<Rightarrow> error" where
  "stat_failure err = (if code err \<in> set notfound then StatError 404 err else StatError 500 err)"

definition stat_stage ::
  "env \<Rightarrow> opts \<Rightarrow> string \<Rightarrow> (outcome + string \<times> stats) \<times> fs_call list" where
  "stat_stage e opt path =
     (case fs_stat e path of
        Inl err \<Rightarrow> (Inl (Failed (stat_failure err)), [Stat path])
      | Inr st \<Rightarrow>
          if is_directory st then
            (if format_of opt \<and> truthy_str (opt_index opt) then
               (let path' = path @ ''/'' @ str_of (opt_index opt)
                in case fs_stat e path' of
                     Inl err \<Rightarrow> (Inl (Failed (stat_failure err)), [Stat path, Stat path'])
                   | Inr st' \<Rightarrow> (Inr (path', st'), [Stat path, Stat path']))
             else (Inl NotApplicable, [Stat path]))
          else (Inr (path, st), [Stat path]))"

subsection \<open>Response headers (lines 169 to 186)\<close>

text \<open>
  Line 175 divides doubles. An option number is an integer that a double holds. The
  quotient of two positive integers \<open>a\<close> and \<open>b\<close> is rounded to the nearest number with a
  significand of 53 bits, ties to the even one: the quotient is scaled by a power of two
  into the range from \<open>2 ^ 52\<close> up to \<open>2 ^ 53\<close>, rounded to an integer, and scaled back.
  \<open>scale_up\<close> doubles the numerator and \<open>scale_down\<close> the denominator, counting the steps.
  \<open>double_quot_trunc a b\<close> is the integer part of the rounded quotient.
\<close>

function scale_up :: "int \<Rightarrow> int \<Rightarrow> nat \<Rightarrow> int \<times> nat" where
  "scale_up a b s =
     (if a \<le> 0 \<or> b \<le> 0 \<or> 2 ^ 52 * b \<le> a then (a, s) else scale_up (2 * a) b (Suc s))"
  by pat_completeness auto
termination
  by (relation "measure (\<lambda>(a, b, s). nat (2 ^ 52 * b - a))") auto

function scale_down :: "int \<Rightarrow> int \<Rightarrow> nat \<Rightarrow> int \<times> nat" where
  "scale_down a b s =
     (if b \<le> 0 \<or> a < 2 ^ 53 * b then (b, s) else scale_down a (2 * b) (Suc s))"
  by pat_completeness auto
termination
  by (relation "measure (\<lambda>(a, b, s). nat (a - 2 ^ 53 * b + 1))") auto

definition round_half_even :: "int \<Rightarrow> int \<Rightarrow> int" where
  "round_half_even n d =
     (let q = n div d; r = n mod d
      in if 2 * r < d then q else if d < 2 * r then q + 1 else if even q then q else q + 1)"

definition double_quot_trunc :: "int \<Rightarrow> int \<Rightarrow> int" where
  "double_quot_trunc a b =
     (if a < 2 ^ 52 * b then (case scale_up a b 0 of (n, s) \<Rightarrow> round_half_even n b div 2 ^ s)
      else (case scale_down a b 0 of (d, s) \<Rightarrow> round_half_even a d * 2 ^ s))"

text \<open>\<open>x / y | 0\<close> for an integer \<open>x\<close> and a positive integer \<open>y\<close>: the quotient of the
  doubles loses its fraction (towards zero), and \<open>to_int32\<close> reduces the result to a signed
  32-bit integer. Rounding is the same for a negative quotient.\<close>

definition double_div_trunc :: "int \<Rightarrow> int \<Rightarrow> int" where
  "double_div_trunc a b =
     (if a < 0 then - double_quot_trunc (- a) b else double_quot_trunc a b)"

definition to_int32 :: "int \<Rightarrow> int" where
  "to_int32 k = (k + 2 ^ 31) mod 2 ^ 32 - 2 ^ 31"

definition directives :: "opts \<Rightarrow> string list" where
  "directives opt =
     (''max-age='' @ string_of_int (to_int32 (double_div_trunc (maxage_of opt) 1000)))
       # (if immutable_of opt then [''immutable''] else [])"

definition run_hook :: "opts \<Rightarrow> string \<Rightarrow> stats \<Rightarrow> koa_context \<Rightarrow> koa_context" where
  "run_hook opt path st ctx =
     (case opt_setHeaders opt of
        Hook f \<Rightarrow> ctx\<lparr>header := f (header ctx) path st\<rparr>
      | _ \<Rightarrow> ctx)"

definition build_headers ::
  "env \<Rightarrow> opts \<Rightarrow> string \<Rightarrow> stats \<Rightarrow> string \<Rightarrow> koa_context \<Rightarrow> koa_context" where
  "build_headers e opt path st encodingExt ctx =
     (let ctx1 = run_hook opt path st ctx;
          ctx2 = ctx_set ''Content-Length'' (digits_of (st_size st)) ctx1;
          ctx3 = (if response_get ''Last-Modified'' ctx2 = []
                  then ctx_set ''Last-Modified'' (st_mtime st) ctx2 else ctx2);
          ctx4 = (if response_get ''Cache-Control'' ctx3 = []
                  then ctx_set ''Cache-Control'' (join_with '','' (directives opt)) ctx3 else ctx3);
          ctx5 = (if ctx_type ctx4 = [] then set_ctx_type e (type path encodingExt) ctx4
                  else ctx4)
      in set_body e path ctx5)"

subsection \<open>\<open>send\<close>\<close>

text \<open>From line 113 on: the path has been joined and has passed the hidden check.\<close>

definition serve :: "env \<Rightarrow> koa_context \<Rightarrow> opts \<Rightarrow> string \<Rightarrow> result" where
  "serve e ctx opt path =
     (case negotiate e ctx opt path of
        (path1, encodingExt, ctx1, calls1) \<Rightarrow>
          (case extension_fallback e opt path1 of
             (Inl err, calls2) \<Rightarrow>
               \<lparr>outcome = Failed err, ctx_out = ctx1, calls = calls1 @ calls2\<rparr>
           | (Inr path2, calls2) \<Rightarrow>
               (case stat_stage e opt path2 of
                  (Inl out, calls3) \<Rightarrow>
                    \<lparr>outcome = out, ctx_out = ctx1, calls = calls1 @ calls2 @ calls3\<rparr>
                | (Inr (path3, st), calls3) \<Rightarrow>
                    \<lparr>outcome = Resolved path3,
                     ctx_out = build_headers e opt path3 st encodingExt ctx1,
                     calls = calls1 @ calls2 @ calls3\<rparr>)))"

text \<open>The path as it is handed to \<open>resolvePath\<close> (lines 69 to 104).\<close>

definition with_index :: "opts \<Rightarrow> bool \<Rightarrow> string \<Rightarrow> string" where
  "with_index opt trailingSlash path =
     (if truthy_str (opt_index opt) \<and> trailingSlash then path @ str_of (opt_index opt) else path)"

text \<open>Lines 60 to 107: the checks at entry, decoding, and the join onto the root. The
  context is always there, so the first assertion holds.\<close>

definition join_request :: "env \<Rightarrow> string \<Rightarrow> opts \<Rightarrow> error + string" where
  "join_request e path opt =
     (if path = [] then Inl (AssertionError ''pathname required'')
      else
        let root = root_of e opt;
            trailingSlash = ends_with CHR ''/'' path;
            path1 = drop (length (parse_root path)) path
        in if not_callable (opt_setHeaders opt) then
             Inl (TypeError ''option setHeaders must be function'')
           else
             (case decode path1 of
                None \<Rightarrow> Inl (HttpError 400 ''failed to decode'')
              | Some path2 \<Rightarrow> resolvePath (cwd e) root (with_index opt trailingSlash path2)))"

definition send :: "env \<Rightarrow> koa_context \<Rightarrow> string \<Rightarrow> opts \<Rightarrow> result" where
  "send e ctx path opt =
     (case join_request e path opt of
        Inl err \<Rightarrow> \<lparr>outcome = Failed err, ctx_out = ctx, calls = []\<rparr>
      | Inr path3 \<Rightarrow>
          if \<not> hidden_of opt \<and> isHidden (root_of e opt) path3 then
            \<lparr>outcome = NotApplicable, ctx_out = ctx, calls = []\<rparr>
          else serve e ctx opt path3)"

section \<open>Paths that leave the root\<close>

text \<open>
  A relative path, read segment by segment from depth \<open>d\<close>, climbs when it meets a \<open>..\<close>
  at depth 0: empty segments and \<open>.\<close> stay where they are, \<open>..\<close> goes one level up, any
  other segment goes one level down.
\<close>

fun climbs :: "nat \<Rightarrow> string list \<Rightarrow> bool" where
  "climbs d [] = False"
| "climbs d (seg # segs) =
     (if seg = [] \<or> seg = ''.'' then climbs d segs
      else if seg = ''..'' then (case d of 0 \<Rightarrow> True | Suc k \<Rightarrow> climbs k segs)
      else climbs (Suc d) segs)"

text \<open>The directory names of the location that an absolute path denotes.\<close>

definition segments :: "string \<Rightarrow> string list" where
  "segments p = rev (foldl (norm_step False) [] (split_on sep p))"

text \<open>The path \<open>p\<close>, taken relative to the directory \<open>base\<close>, denotes a location that is
  not \<open>base\<close> nor below it.\<close>

definition outside_root :: "string \<Rightarrow> string \<Rightarrow> bool" where
  "outside_root base p =
     (take (length (segments base)) (segments (base @ ''/'' @ p)) \<noteq> segments base)"

section \<open>Percent-encoding\<close>

text \<open>
  A percent-encoder writes every character it does not keep as the escapes of its UTF-8
  octets, with upper-case hexadecimal digits. \<open>encodeURIComponent\<close> keeps the characters
  of \<open>component_unescaped\<close>, \<open>encodeURI\<close> those of \<open>uri_unescaped\<close>.
\<close>

definition hex_digit :: "nat \<Rightarrow> char" where
  "hex_digit n = (if n < 10 then char_of (48 + n) else char_of (55 + n))"

definition pct_byte :: "char \<Rightarrow> string" where
  "pct_byte c =
     [CHR ''%'', hex_digit ((of_char c :: nat) div 16), hex_digit ((of_char c :: nat) mod 16)]"

definition pct_encode :: "(char \<Rightarrow> bool) \<Rightarrow> string \<Rightarrow> string" where
  "pct_encode keep s = concat (map (\<lambda>c. if keep c then [c] else pct_byte c) s)"

definition is_digit :: "char \<Rightarrow> bool" where
  "is_digit c = (let n = (of_char c :: nat) in 48 \<le> n \<and> n \<le> 57)"

definition component_unescaped :: "char \<Rightarrow> bool" where
  "component_unescaped c =
     (is_alpha c \<or> is_digit c \<or> c \<in> set ''-_.!~*()'' \<or> c = CHR 0x27)"

definition uri_unescaped :: "char \<Rightarrow> bool" where
  "uri_unescaped c = (component_unescaped c \<or> c \<in> set '';/?:@&=+$,#'')"

text \<open>A string of the model stands for a JavaScript string when its octets are well-formed
  UTF-8.\<close>

function well_formed :: "nat list \<Rightarrow> bool" where
  "well_formed [] = True"
| "well_formed (b # bs) =
     (if b < 128 then well_formed bs
      else
        let n = seq_len b
        in n \<noteq> 0 \<and> n - 1 \<le> length bs \<and> utf8_ok (b # take (n - 1) bs)
           \<and> well_formed (drop (n - 1) bs))"
  by pat_completeness auto
termination
  by (relation "measure length") auto

definition utf8_string :: "string \<Rightarrow> bool" where
  "utf8_string s = well_formed (map of_char s)"

text \<open>The token that the decoder reads back for an encoded character.\<close>

definition tok :: "(char \<Rightarrow> bool) \<Rightarrow> char \<Rightarrow> token" where
  "tok keep c = (if keep c then Lit c else Esc (of_char c))"

section \<open>A sample site\<close>

definition a_file :: stats where
  "a_file = \<lparr>is_directory = False, st_size = 120, st_mtime = ''Thu, 01 Jan 2026 00:00:00 GMT''\<rparr>"

definition a_dir :: stats where
  "a_dir = \<lparr>is_directory = True, st_size = 4096, st_mtime = ''Thu, 01 Jan 2026 00:00:00 GMT''\<rparr>"

definition demo_files :: "(string \<times> stats) list" where
  "demo_files =
     [(''/www'', a_dir), (''/www/index.html'', a_file), (''/www/app.js'', a_file),
      (''/www/app.js.br'', a_file), (''/www/app.js.gz'', a_file), (''/www/docs'', a_dir),
      (''/www/docs/index.html'', a_file), (''/www/.env'', a_file), (''/www/about.htm'', a_file),
      (''/www/app.v2'', a_file), (''/www/app.v2.html'', a_file),
      (''/www/read me.txt'', a_file)]"

definition demo_env :: env where
  "demo_env =
     \<lparr>cwd = ''/srv'',
      fs_access = (\<lambda>p. p \<in> set (map fst demo_files)),
      fs_stat = (\<lambda>p. case map_of demo_files p of
                   Some s \<Rightarrow> Inr s
                 | None \<Rightarrow> Inl (FsError (if p = ''/www/locked'' then ''EACCES'' else ''ENOENT''))),
      mime_lookup = (\<lambda>t. if t = ''.html'' then Some ''text/html; charset=utf-8''
                     else if t = ''.js'' then Some ''application/javascript; charset=utf-8''
                     else if t = ''bin'' then Some ''application/octet-stream''
                     else None)\<rparr>"

definition demo_ctx :: koa_context where
  "demo_ctx =
     \<lparr>acceptsEncodings = (\<lambda>l. if ''br'' \<in> set l then Some ''br''
                            else if ''gzip'' \<in> set l then Some ''gzip'' else Some ''identity''),
      header = Map.empty, body = None, status = 404, explicitStatus = False\<rparr>"

text \<open>A client that sends no \<open>Accept-Encoding\<close> the server could use.\<close>

definition plain_ctx :: koa_context where
  "plain_ctx =
     \<lparr>acceptsEncodings = (\<lambda>l. Some ''identity''), header = Map.empty, body = None,
      status = 404, explicitStatus = False\<rparr>"

text \<open>A response on which the caller has already set \<open>Cache-Control\<close>.\<close>

definition cached_ctx :: koa_context where
  "cached_ctx = plain_ctx\<lparr>header := [''cache-control'' \<mapsto> ''no-cache'']\<rparr>"

text \<open>A response on which \<open>Cache-Control\<close> has been set to the empty string.\<close>

definition blank_ctx :: koa_context where
  "blank_ctx = plain_ctx\<lparr>header := [''cache-control'' \<mapsto> []]\<rparr>"

text \<open>A \<open>setHeaders\<close> function that removes \<open>Cache-Control\<close>, and one that sets it.\<close>

definition clearing_hook ::
  "(string \<rightharpoonup> string) \<Rightarrow> string \<Rightarrow> stats \<Rightarrow> (string \<rightharpoonup> string)" where
  "clearing_hook h path st = h(''cache-control'' := None)"

definition private_hook ::
  "(string \<rightharpoonup> string) \<Rightarrow> string \<Rightarrow> stats \<Rightarrow> (string \<rightharpoonup> string)" where
  "private_hook h path st = h(''cache-control'' \<mapsto> ''private'')"

text \<open>A \<open>setHeaders\<close> function that adds one header field of its own.\<close>

definition demo_hook :: "(string \<rightharpoonup> string) \<Rightarrow> string \<Rightarrow> stats \<Rightarrow> (string \<rightharpoonup> string)" where
  "demo_hook h path st = h(''x-served-by'' \<mapsto> ''send'')"

definition demo_opts :: opts where
  "demo_opts =
     \<lparr>opt_root = Some ''/www'', opt_index = None, opt_maxage = None, opt_maxAge = None,
      opt_immutable = None, opt_hidden = None, opt_format = None, opt_extensions = None,
      opt_brotli = None, opt_gzip = None, opt_setHeaders = NoHook\<rparr>"

section \<open>Auxiliary facts\<close>

declare digits_of.simps [simp del]

lemma negotiate_calls:
  "negotiate e ctx opt p = (p1, x, ctx1, cs) \<Longrightarrow> c \<in> set cs \<Longrightarrow> \<exists>q. c = Access q"
  by (auto simp: negotiate_def Let_def split: if_splits)

lemma ext_loop_calls:
  "ext_loop e p list = (r, cs) \<Longrightarrow> c \<in> set cs \<Longrightarrow> \<exists>q. c = Access q"
  by (induction e p list arbitrary: r cs rule: ext_loop.induct)
     (auto simp: Let_def split: if_splits prod.splits)

lemma extension_fallback_calls:
  "extension_fallback e opt p = (r, cs) \<Longrightarrow> c \<in> set cs \<Longrightarrow> \<exists>q. c = Access q"
  by (auto simp: extension_fallback_def split: option.splits if_splits dest: ext_loop_calls)

lemma stat_stage_last:
  "stat_stage e opt p = (r, cs) \<Longrightarrow>
     cs \<noteq> [] \<and> (\<exists>q. last cs = Stat q \<and>
       (\<forall>err. fs_stat e q = Inl err \<longrightarrow> r = Inl (Failed (stat_failure err))))"
  by (auto simp: stat_stage_def Let_def split: sum.splits if_splits)

lemma serve_stat_failure:
  assumes "calls (serve e ctx opt p) \<noteq> []"
    and "last (calls (serve e ctx opt p)) = Stat q"
    and "fs_stat e q = Inl err"
  shows "outcome (serve e ctx opt p) = Failed (stat_failure err)"
proof -
  obtain p1 x ctx1 cs1 where n: "negotiate e ctx opt p = (p1, x, ctx1, cs1)"
    by (cases "negotiate e ctx opt p") auto
  obtain r2 cs2 where f: "extension_fallback e opt p1 = (r2, cs2)"
    by (cases "extension_fallback e opt p1") auto
  have acc: "\<And>c. c \<in> set (cs1 @ cs2) \<Longrightarrow> \<exists>q. c = Access q"
    using negotiate_calls [OF n] extension_fallback_calls [OF f] by auto
  show ?thesis
  proof (cases r2)
    case (Inl err2)
    then have cs: "calls (serve e ctx opt p) = cs1 @ cs2"
      by (simp add: serve_def n f)
    with assms(1) have "last (cs1 @ cs2) \<in> set (cs1 @ cs2)"
      by (metis last_in_set)
    with acc obtain q' where "last (cs1 @ cs2) = Access q'" by blast
    with assms(2) cs show ?thesis by simp
  next
    case (Inr p2)
    obtain r3 cs3 where s: "stat_stage e opt p2 = (r3, cs3)"
      by (cases "stat_stage e opt p2") auto
    from stat_stage_last [OF s] obtain q' where ne: "cs3 \<noteq> []" and l: "last cs3 = Stat q'"
      and cl: "\<And>err. fs_stat e q' = Inl err \<Longrightarrow> r3 = Inl (Failed (stat_failure err))"
      by blast
    have cs: "calls (serve e ctx opt p) = cs1 @ cs2 @ cs3"
      using Inr by (cases r3) (auto simp: serve_def n f s)
    with ne l assms(2) have "q' = q" by simp
    with cl assms(3) have "r3 = Inl (Failed (stat_failure err))" by simp
    then show ?thesis using Inr by (simp add: serve_def n f s)
  qed
qed

lemma stat_stage_calls:
  "stat_stage e opt p = (r, cs) \<Longrightarrow> c \<in> set cs \<Longrightarrow> \<exists>q. c = Stat q"
  by (auto simp: stat_stage_def Let_def split: sum.splits if_splits)

lemma send_serve:
  "join_request e path opt = Inr p \<Longrightarrow> hidden_of opt \<or> \<not> isHidden (root_of e opt) p
     \<Longrightarrow> send e ctx path opt = serve e ctx opt p"
  by (auto simp: send_def)

lemma send_resolved:
  "outcome (send e ctx path opt) = Resolved q \<Longrightarrow> \<exists>p. send e ctx path opt = serve e ctx opt p"
  by (auto simp: send_def split: sum.splits if_splits)

subsection \<open>The extension loop\<close>

lemma basename_br: "CHR ''.'' \<in> set (basename (p @ ''.br''))"
  by (simp add: basename_def sep_def)

lemma extension_fallback_dot:
  "CHR ''.'' \<in> set (basename p) \<Longrightarrow> extension_fallback e opt p = (Inr p, [])"
  by (simp add: extension_fallback_def split: option.splits)

lemma serve_calls_dot:
  assumes "negotiate e ctx opt p = (p1, x, ctx1, cs1)" and "CHR ''.'' \<in> set (basename p1)"
  shows "calls (serve e ctx opt p) = cs1 @ snd (stat_stage e opt p1)"
  using assms
  by (cases "stat_stage e opt p1")
     (auto simp: serve_def extension_fallback_dot split: sum.splits prod.splits)

lemma no_ext_basic [simp]:
  "root_of e (opt\<lparr>opt_extensions := x\<rparr>) = root_of e opt"
  "hidden_of (opt\<lparr>opt_extensions := x\<rparr>) = hidden_of opt"
  "with_index (opt\<lparr>opt_extensions := x\<rparr>) t p = with_index opt t p"
  "brotli_of (opt\<lparr>opt_extensions := x\<rparr>) = brotli_of opt"
  "gzip_of (opt\<lparr>opt_extensions := x\<rparr>) = gzip_of opt"
  "format_of (opt\<lparr>opt_extensions := x\<rparr>) = format_of opt"
  "directives (opt\<lparr>opt_extensions := x\<rparr>) = directives opt"
  "run_hook (opt\<lparr>opt_extensions := x\<rparr>) p st ctx = run_hook opt p st ctx"
  by (simp_all add: root_of_def hidden_of_def with_index_def brotli_of_def gzip_of_def
      format_of_def run_hook_def directives_def maxage_of_def immutable_of_def)

lemma no_ext [simp]:
  "join_request e path (opt\<lparr>opt_extensions := x\<rparr>) = join_request e path opt"
  "negotiate e ctx (opt\<lparr>opt_extensions := x\<rparr>) p = negotiate e ctx opt p"
  "stat_stage e (opt\<lparr>opt_extensions := x\<rparr>) p = stat_stage e opt p"
  "build_headers e (opt\<lparr>opt_extensions := x\<rparr>) p st ext ctx = build_headers e opt p st ext ctx"
  by (simp_all add: join_request_def negotiate_def stat_stage_def build_headers_def Let_def
      cong: option.case_cong sum.case_cong if_cong)

lemma ext_loop_bad_entry:
  assumes "\<forall>s \<in> set pre. \<not> fs_access e (p @ with_dot s)" and "\<forall>s. v \<noteq> JStr s"
  shows "ext_loop e p (map JStr pre @ v # post) =
           (Inl (TypeError ''option extensions must be array of strings or false''),
            map (\<lambda>s. Access (p @ with_dot s)) pre)"
  using assms
proof (induction pre)
  case Nil
  then show ?case by (cases v) auto
next
  case (Cons s pre)
  then show ?case by (simp add: exists_def)
qed

subsection \<open>Hidden segments\<close>

lemma hidden_loop_iff:
  "hidden_loop segs \<longleftrightarrow> (\<exists>seg \<in> set segs. seg \<noteq> [] \<and> hd seg = CHR ''.'')"
  by (induction segs) (auto simp: starts_with_def split: list.splits)

subsection \<open>Header fields\<close>

lemma lower_names [simp]:
  "toLowerCase ''Cache-Control'' = ''cache-control''"
  "toLowerCase ''Content-Length'' = ''content-length''"
  "toLowerCase ''Content-Encoding'' = ''content-encoding''"
  "toLowerCase ''Last-Modified'' = ''last-modified''"
  "toLowerCase ''Content-Type'' = ''content-type''"
  by code_simp+

lemma header_simps [simp]:
  "header (ctx_set f v c) = (header c)(toLowerCase f \<mapsto> v)"
  "header (removeHeader f c) = (header c)(toLowerCase f := None)"
  by (simp_all add: ctx_set_def removeHeader_def)

lemma set_ctx_type_header:
  "k \<noteq> ''content-type'' \<Longrightarrow> header (set_ctx_type e t c) k = header c k"
  by (simp add: set_ctx_type_def split: option.splits)

lemma set_body_header:
  "k \<noteq> ''content-type'' \<Longrightarrow> k \<noteq> ''content-length''
     \<Longrightarrow> header (set_body e p c) k = header c k"
  by (simp add: set_body_def Let_def set_ctx_type_header set_status_def split: option.splits)

lemma negotiate_cache_control:
  "negotiate e ctx opt p = (p1, x, ctx1, cs)
     \<Longrightarrow> header ctx1 ''cache-control'' = header ctx ''cache-control''"
  by (auto simp: negotiate_def Let_def split: if_splits)

lemma build_headers_cache_control:
  "header (build_headers e opt p st x c) ''cache-control'' =
     (case header (run_hook opt p st c) ''cache-control'' of
        None \<Rightarrow> Some (join_with '','' (directives opt))
      | Some v \<Rightarrow> if v = [] then Some (join_with '','' (directives opt)) else Some v)"
  by (simp add: build_headers_def Let_def response_get_def set_ctx_type_header set_body_header
      split: option.splits)

lemma serve_resolved:
  assumes "outcome (serve e ctx opt p) = Resolved q"
  shows "\<exists>p1 x ctx1 cs st. negotiate e ctx opt p = (p1, x, ctx1, cs)
           \<and> ctx_out (serve e ctx opt p) = build_headers e opt q st x ctx1"
proof -
  obtain p1 x ctx1 cs1 where n: "negotiate e ctx opt p = (p1, x, ctx1, cs1)"
    by (cases "negotiate e ctx opt p") auto
  show ?thesis
    using assms unfolding serve_def n
    by (auto simp: stat_stage_def Let_def split: prod.splits sum.splits if_splits)
qed

lemma run_hook_keeps:
  "\<forall>f h p st. opt_setHeaders opt = Hook f \<longrightarrow> f h p st k = h k
     \<Longrightarrow> header (run_hook opt p st c) k = header c k"
  by (simp add: run_hook_def split: hook.splits)

lemma resolved_cache_control:
  assumes "outcome (send e ctx path opt) = Resolved q"
    and "\<forall>f h p st. opt_setHeaders opt = Hook f
           \<longrightarrow> f h p st ''cache-control'' = h ''cache-control''"
  shows "header (ctx_out (send e ctx path opt)) ''cache-control'' =
     (case header ctx ''cache-control'' of
        None \<Rightarrow> Some (join_with '','' (directives opt))
      | Some v \<Rightarrow> if v = [] then Some (join_with '','' (directives opt)) else Some v)"
proof -
  from send_resolved [OF assms(1)] obtain p where s: "send e ctx path opt = serve e ctx opt p" ..
  with assms(1) have "outcome (serve e ctx opt p) = Resolved q" by simp
  from serve_resolved [OF this] obtain p1 x ctx1 cs st where
    n: "negotiate e ctx opt p = (p1, x, ctx1, cs)"
    and c: "ctx_out (serve e ctx opt p) = build_headers e opt q st x ctx1" by blast
  show ?thesis
    by (simp add: s c build_headers_cache_control run_hook_keeps [OF assms(2)]
        negotiate_cache_control [OF n])
qed

lemma directives_joined:
  "join_with '','' (directives opt) =
     ''max-age='' @ string_of_int (to_int32 (double_div_trunc (maxage_of opt) 1000))
       @ (if opt_immutable opt = Some True then '',immutable'' else [])"
  by (simp add: directives_def immutable_of_def)

subsection \<open>The quotient of doubles\<close>

declare scale_up.simps [simp del] scale_down.simps [simp del]

lemma scale_up_result:
  "scale_up a b s0 = (n, s) \<Longrightarrow> 0 < a \<Longrightarrow> 0 < b
     \<Longrightarrow> s0 \<le> s \<and> n = a * 2 ^ (s - s0) \<and> 2 ^ 52 * b \<le> n"
proof (induction a b s0 rule: scale_up.induct)
  case (1 a b s0)
  show ?case
  proof (cases "2 ^ 52 * b \<le> a")
    case True
    with "1.prems" show ?thesis by (simp add: scale_up.simps [of a b s0])
  next
    case False
    with "1.prems" have r: "scale_up (2 * a) b (Suc s0) = (n, s)"
      by (simp add: scale_up.simps [of a b s0])
    from "1.IH" [OF _ r] False "1.prems"
    have "Suc s0 \<le> s" and "n = 2 * a * 2 ^ (s - Suc s0)" and "2 ^ 52 * b \<le> n"
      by auto
    moreover from \<open>Suc s0 \<le> s\<close> have "(2::int) * 2 ^ (s - Suc s0) = 2 ^ (s - s0)"
      by (metis Suc_diff_Suc Suc_le_lessD power_Suc)
    ultimately show ?thesis by (simp add: mult.assoc mult.left_commute)
  qed
qed

lemma round_half_even_cases:
  "round_half_even n d = n div d \<or> (round_half_even n d = n div d + 1 \<and> d \<le> 2 * (n mod d))"
  by (auto simp: round_half_even_def Let_def)

lemma le_div_int: "0 < (b::int) \<Longrightarrow> x * b \<le> y \<Longrightarrow> x \<le> y div b"
  using zdiv_mono1 by fastforce

lemma div_less_int:
  assumes "0 < (b::int)" and "y < x * b"
  shows "y div b < x"
proof (rule ccontr)
  assume "\<not> y div b < x"
  then have "x * b \<le> y div b * b" using assms(1) by (simp add: mult_right_mono)
  moreover have "y div b * b + y mod b = y" by simp
  moreover have "0 \<le> y mod b" using assms(1) by simp
  ultimately show False using assms(2) by linarith
qed

lemma div_between:
  "0 < (P::int) \<Longrightarrow> q * P \<le> m \<Longrightarrow> m < (q + 1) * P \<Longrightarrow> m div P = q"
  by (rule int_div_pos_eq [of m P q "m - q * P"]) (auto simp: algebra_simps)

lemma scaled_identity: "(q * b + t) * P = ((q + 1) * P) * b - (b - t) * (P::int)"
  by (simp add: algebra_simps)

lemma round_scaled:
  assumes a: "0 \<le> a" and b: "0 < b" and P: "0 < P" and bP: "b < 2 * P"
  shows "round_half_even (a * P) b div P = a div b"
proof -
  let ?q = "a div b" and ?t = "a mod b"
  let ?qq = "(a * P) div b" and ?r = "(a * P) mod b"
  let ?m = "round_half_even (a * P) b"
  have t: "0 \<le> ?t" "?t < b" using b by simp_all
  have aeq: "?q * b + ?t = a" by simp
  have lo: "?q * P \<le> ?qq"
  proof (rule le_div_int [OF b])
    have "?q * b \<le> a" using t(1) aeq by linarith
    then have "?q * b * P \<le> a * P" using P by (simp add: mult_right_mono)
    then show "?q * P * b \<le> a * P" by (simp add: mult.assoc mult.commute mult.left_commute)
  qed
  have c1: "1 \<le> b - ?t" using t by simp
  have up: "a * P = ((?q + 1) * P) * b - (b - ?t) * P"
    using scaled_identity [of ?q b ?t P] by simp
  have cP: "P \<le> (b - ?t) * P" using c1 P by (simp add: mult_le_cancel_right1)
  have hi: "?qq < (?q + 1) * P"
  proof (rule div_less_int [OF b])
    show "a * P < (?q + 1) * P * b" using up cP P by linarith
  qed
  have m_hi: "?m < (?q + 1) * P"
  proof (cases "?m = ?qq")
    case True
    with hi show ?thesis by simp
  next
    case False
    with round_half_even_cases [of "a * P" b]
    have m: "?m = ?qq + 1" and r: "b \<le> 2 * ?r" by auto
    show ?thesis
    proof (rule ccontr)
      assume "\<not> ?m < (?q + 1) * P"
      with m hi have qq: "?qq = (?q + 1) * P - 1" by linarith
      have "?qq * b + ?r = a * P" by simp
      moreover have "?qq * b = (?q + 1) * P * b - b"
        by (simp only: qq left_diff_distrib mult_1)
      ultimately have "?r = b - (b - ?t) * P" using up by linarith
      with cP have "?r \<le> b - P" by linarith
      with r bP show False by linarith
    qed
  qed
  have "?qq \<le> ?m" using round_half_even_cases [of "a * P" b] by auto
  with lo have "?q * P \<le> ?m" by linarith
  with m_hi show ?thesis using P by (simp add: div_between)
qed

lemma double_quot_trunc_small:
  assumes "0 \<le> a" and "a < 2 ^ 53"
  shows "double_quot_trunc a 1000 = a div 1000"
proof (cases "a = 0")
  case True
  then show ?thesis by (simp add: double_quot_trunc_def scale_up.simps round_half_even_def)
next
  case False
  with assms have pos: "0 < a" by simp
  obtain n s where su: "scale_up a 1000 0 = (n, s)" by (cases "scale_up a 1000 0") auto
  from scale_up_result [OF su pos] have n: "n = a * 2 ^ s" and big: "2 ^ 52 * 1000 \<le> n"
    by simp_all
  have P: "(0::int) < 2 ^ s" by simp
  have "(1000::int) < 2 * 2 ^ s"
  proof (rule ccontr)
    assume "\<not> (1000::int) < 2 * 2 ^ s"
    then have "(2::int) ^ s \<le> 500" by simp
    then have "a * 2 ^ s \<le> a * 500" using pos by (simp add: mult_left_mono)
    with assms(2) n big show False by simp
  qed
  from round_scaled [OF assms(1) _ P this]
  have "round_half_even (a * 2 ^ s) 1000 div 2 ^ s = a div 1000" by simp
  moreover have "a < 2 ^ 52 * 1000" using assms(2) by simp
  ultimately show ?thesis by (simp add: double_quot_trunc_def su n)
qed

lemma double_div_trunc_safe:
  assumes "\<bar>m\<bar> < 2 ^ 53"
  shows "double_div_trunc m 1000 = (if m < 0 then - ((- m) div 1000) else m div 1000)"
  using assms double_quot_trunc_small [of m] double_quot_trunc_small [of "- m"]
  by (auto simp: double_div_trunc_def)

lemma to_int32_small: "- (2 ^ 31) \<le> k \<Longrightarrow> k < 2 ^ 31 \<Longrightarrow> to_int32 k = k"
  by (simp add: to_int32_def)

lemma max_age_floor:
  assumes "0 \<le> m" and "m < 2147483648000"
  shows "to_int32 (double_div_trunc m 1000) = m div 1000"
proof -
  have "double_div_trunc m 1000 = m div 1000"
    using assms double_div_trunc_safe [of m] by simp
  moreover have "0 \<le> m div 1000" using assms(1) by simp
  moreover have "m div 1000 < 2147483648" using assms(2) by simp
  ultimately show ?thesis by (simp add: to_int32_small)
qed

lemma digit_chars:
  "char_of (48 :: nat) = CHR ''0''" "char_of (49 :: nat) = CHR ''1''"
  "char_of (50 :: nat) = CHR ''2''" "char_of (51 :: nat) = CHR ''3''"
  "char_of (52 :: nat) = CHR ''4''" "char_of (53 :: nat) = CHR ''5''"
  "char_of (54 :: nat) = CHR ''6''" "char_of (55 :: nat) = CHR ''7''"
  "char_of (56 :: nat) = CHR ''8''" "char_of (57 :: nat) = CHR ''9''"
  by code_simp+

lemma maxAge_frame [simp]:
  "root_of e (opt\<lparr>opt_maxAge := x\<rparr>) = root_of e opt"
  "hidden_of (opt\<lparr>opt_maxAge := x\<rparr>) = hidden_of opt"
  "with_index (opt\<lparr>opt_maxAge := x\<rparr>) t p = with_index opt t p"
  "brotli_of (opt\<lparr>opt_maxAge := x\<rparr>) = brotli_of opt"
  "gzip_of (opt\<lparr>opt_maxAge := x\<rparr>) = gzip_of opt"
  "format_of (opt\<lparr>opt_maxAge := x\<rparr>) = format_of opt"
  by (simp_all add: root_of_def hidden_of_def with_index_def brotli_of_def gzip_of_def
      format_of_def)

lemma maxAge_frame_stages [simp]:
  "join_request e path (opt\<lparr>opt_maxAge := x\<rparr>) = join_request e path opt"
  "negotiate e ctx (opt\<lparr>opt_maxAge := x\<rparr>) p = negotiate e ctx opt p"
  "extension_fallback e (opt\<lparr>opt_maxAge := x\<rparr>) p = extension_fallback e opt p"
  "stat_stage e (opt\<lparr>opt_maxAge := x\<rparr>) p = stat_stage e opt p"
  by (simp_all add: join_request_def negotiate_def stat_stage_def extension_fallback_def Let_def
      cong: option.case_cong sum.case_cong if_cong)

lemma outcome_maxAge:
  "outcome (send e ctx path (opt\<lparr>opt_maxAge := x\<rparr>)) = outcome (send e ctx path opt)"
  by (simp add: send_def serve_def split: sum.splits prod.splits)

subsection \<open>Segments and the join\<close>

lemma split_on_nonempty: "split_on c s \<noteq> []"
  by (induction s) (auto split: list.splits)

lemma split_on_append: "split_on c (a @ c # b) = split_on c a @ split_on c b"
proof (induction a)
  case Nil
  then show ?case by simp
next
  case (Cons x a)
  then show ?case
    using split_on_nonempty [of c a] by (cases "split_on c a") auto
qed

lemma norm_step_keeps_bottom:
  assumes "stk \<noteq> []" and "last stk = ''..''"
  shows "norm_step True stk seg \<noteq> [] \<and> last (norm_step True stk seg) = ''..''"
proof (cases stk)
  case Nil
  with assms show ?thesis by simp
next
  case (Cons s rest)
  show ?thesis
  proof (cases "s = ''..''")
    case True
    with Cons assms show ?thesis by (simp add: norm_step_def)
  next
    case False
    with Cons assms have "rest \<noteq> []" by auto
    with Cons assms False show ?thesis by (simp add: norm_step_def)
  qed
qed

lemma foldl_keeps_bottom:
  "stk \<noteq> [] \<Longrightarrow> last stk = ''..'' \<Longrightarrow>
     foldl (norm_step True) stk segs \<noteq> [] \<and> last (foldl (norm_step True) stk segs) = ''..''"
proof (induction segs arbitrary: stk)
  case Nil
  then show ?case by simp
next
  case (Cons seg segs)
  from norm_step_keeps_bottom [OF Cons.prems, of seg] Cons.IH show ?case by simp
qed

lemma climbs_bottom:
  "''..'' \<notin> set T \<Longrightarrow> climbs (length T) segs \<Longrightarrow>
     foldl (norm_step True) T segs \<noteq> [] \<and> last (foldl (norm_step True) T segs) = ''..''"
proof (induction segs arbitrary: T)
  case Nil
  then show ?case by simp
next
  case (Cons seg segs)
  show ?case
  proof (cases "seg = [] \<or> seg = ''.''")
    case True
    with Cons show ?thesis by (auto simp: norm_step_def)
  next
    case skip: False
    show ?thesis
    proof (cases "seg = ''..''")
      case False
      with skip have "norm_step True T seg = seg # T" by (simp add: norm_step_def)
      moreover have "''..'' \<notin> set (seg # T)" using False Cons.prems(1) by auto
      moreover have "climbs (length (seg # T)) segs" using Cons.prems(2) skip False by simp
      ultimately show ?thesis using Cons.IH [of "seg # T"] by simp
    next
      case True
      show ?thesis
      proof (cases T)
        case Nil
        with True have "norm_step True T seg = [''..'']" by (simp add: norm_step_def)
        then show ?thesis using foldl_keeps_bottom [of "[''..'']" segs] by simp
      next
        case (Cons t T0)
        with Cons.prems(1) have "t \<noteq> ''..''" and "''..'' \<notin> set T0" by auto
        moreover from this Cons True have "norm_step True T seg = T0" by (simp add: norm_step_def)
        moreover have "climbs (length T0) segs" using Cons.prems(2) True Cons by simp
        ultimately show ?thesis using Cons.IH [of T0] by simp
      qed
    qed
  qed
qed

lemma stays_inside:
  "''..'' \<notin> set T \<Longrightarrow> \<not> climbs (length T) segs \<Longrightarrow>
     \<exists>T'. foldl (norm_step False) (T @ B) segs = T' @ B \<and> ''..'' \<notin> set T'"
proof (induction segs arbitrary: T)
  case Nil
  then show ?case by auto
next
  case (Cons seg segs)
  show ?case
  proof (cases "seg = [] \<or> seg = ''.''")
    case True
    with Cons show ?thesis by (auto simp: norm_step_def)
  next
    case skip: False
    show ?thesis
    proof (cases "seg = ''..''")
      case False
      with skip have "norm_step False (T @ B) seg = (seg # T) @ B" by (simp add: norm_step_def)
      moreover have "''..'' \<notin> set (seg # T)" using False Cons.prems(1) by auto
      moreover have "\<not> climbs (length (seg # T)) segs" using Cons.prems(2) skip False by simp
      ultimately show ?thesis using Cons.IH [of "seg # T"] by simp
    next
      case True
      show ?thesis
      proof (cases T)
        case Nil
        with Cons.prems(2) True show ?thesis by simp
      next
        case (Cons t T0)
        with Cons.prems(1) have "t \<noteq> ''..''" and "''..'' \<notin> set T0" by auto
        moreover from this Cons True have "norm_step False (T @ B) seg = T0 @ B"
          by (simp add: norm_step_def)
        moreover have "\<not> climbs (length T0) segs" using Cons.prems(2) True Cons by simp
        ultimately show ?thesis using Cons.IH [of T0] by simp
      qed
    qed
  qed
qed

lemma outside_root_climbs:
  assumes "outside_root base p"
  shows "climbs 0 (split_on sep p)"
proof (rule ccontr)
  assume "\<not> climbs 0 (split_on sep p)"
  from stays_inside [of "[]" "split_on sep p" "foldl (norm_step False) [] (split_on sep base)"] this
  obtain T' where "foldl (norm_step False) (foldl (norm_step False) [] (split_on sep base))
      (split_on sep p) = T' @ foldl (norm_step False) [] (split_on sep base)"
    by auto
  then have "segments (base @ ''/'' @ p) = segments base @ rev T'"
    using split_on_append [of sep base p] by (simp add: segments_def sep_def)
  with assms show False by (simp add: outside_root_def)
qed

lemma up_at_join:
  assumes "segs \<noteq> []" and "hd segs = ''..''" and "sfx = [] \<or> sfx = ''/''"
  shows "up_at (join_with ''/'' segs @ sfx)"
proof (cases segs)
  case Nil
  with assms show ?thesis by simp
next
  case (Cons a rest)
  with assms have a: "a = ''..''" by simp
  show ?thesis
  proof (cases rest)
    case Nil
    with Cons a assms(3) show ?thesis by (auto simp: up_at_def is_slash_def)
  next
    case (Cons b rest')
    with \<open>segs = a # rest\<close> a show ?thesis by (simp add: up_at_def is_slash_def)
  qed
qed

lemma climbs_up_path:
  assumes "climbs 0 (split_on sep p)"
  shows "UP_PATH_REGEXP (normalize_path (''.'' @ [sep] @ p))"
proof -
  let ?stk = "foldl (norm_step True) [] (split_on sep p)"
  have sp: "split_on sep (CHR ''.'' # sep # p) = ''.'' # split_on sep p"
    using split_on_append [of sep "''.''" p] by (simp add: sep_def)
  have q: "normalizeString (CHR ''.'' # sep # p) True = join_with ''/'' (rev ?stk)"
    by (simp add: normalizeString_def sp norm_step_def)
  from climbs_bottom [of "[]" "split_on sep p"] assms
  have ne: "?stk \<noteq> []" and l: "last ?stk = ''..''" by auto
  then have r: "rev ?stk \<noteq> []" "hd (rev ?stk) = ''..''" by (auto simp: hd_rev)
  have na: "\<not> isAbsolute (CHR ''.'' # sep # p)"
    by (simp add: isAbsolute_def starts_with_def sep_def)
  have u: "up_at (join_with ''/'' (rev ?stk) @ sfx)" if "sfx = [] \<or> sfx = ''/''" for sfx
    using up_at_join [OF r that] .
  have qne: "join_with ''/'' (rev ?stk) \<noteq> []"
    using u [of "[]"] by (auto simp: up_at_def)
  have "up_at (normalize_path (CHR ''.'' # sep # p))"
    using u [of "[]"] u [of "''/''"] qne
    by (simp add: normalize_path_def q na Let_def)
  then show ?thesis by (simp add: UP_PATH_REGEXP_def)
qed

lemma resolvePath_rejects:
  assumes "climbs 0 (split_on sep p)"
  shows "resolvePath c root p = Inl (HttpError 403 ''Forbidden'')
       \<or> resolvePath c root p = Inl (HttpError 400 ''Malicious Path'')"
  using climbs_up_path [OF assms] by (simp add: resolvePath_def)


lemma tokens_snoc:
  "tokens (s @ [c]) = Some ts \<Longrightarrow> c \<noteq> CHR ''%'' \<Longrightarrow> hex_val c = None
     \<Longrightarrow> \<exists>ts'. ts = ts' @ [Lit c]"
proof (induction s arbitrary: ts rule: tokens.induct)
  case 1
  then show ?case by auto
next
  case (2 x cs)
  show ?case
  proof (cases "x = CHR ''%''")
    case False
    with "2.prems" obtain ts0 where t: "tokens (cs @ [c]) = Some ts0" and ts: "ts = Lit x # ts0"
      by auto
    from "2.IH"(2) [OF False t "2.prems"(2,3)] ts show ?thesis by auto
  next
    case True
    show ?thesis
    proof (cases cs)
      case Nil
      with True "2.prems" show ?thesis by simp
    next
      case (Cons h1 cs1)
      show ?thesis
      proof (cases cs1)
        case Nil
        with Cons True "2.prems" show ?thesis by (simp split: option.splits)
      next
        case (Cons h2 rest)
        with \<open>cs = h1 # cs1\<close> True "2.prems"(1)
        obtain a b ts0 where a: "hex_val h1 = Some a" and b: "hex_val h2 = Some b"
          and t: "tokens (rest @ [c]) = Some ts0" and ts: "ts = Esc (16 * a + b) # ts0"
          by (auto split: option.splits)
        from "2.IH"(1) [OF True \<open>cs = h1 # cs1\<close> Cons a b t "2.prems"(2,3)] ts
        show ?thesis by auto
      qed
    qed
  qed
qed

lemma esc_bytes_all: "esc_bytes ts = Some bs \<Longrightarrow> Lit c \<notin> set ts"
  by (induction ts arbitrary: bs rule: esc_bytes.induct) auto

lemma decode_tokens_snoc:
  "decode_tokens (ts @ [Lit c]) = Some d \<Longrightarrow> \<exists>d'. d = d' @ [c]"
proof (induction ts arbitrary: d rule: decode_tokens.induct)
  case 1
  then show ?case by auto
next
  case (2 x ts)
  then show ?case by auto
next
  case (3 b ts)
  show ?case
  proof (cases "b < 128")
    case True
    with 3 show ?thesis by auto
  next
    case False
    let ?n = "seq_len b"
    from "3.prems" False have n0: "?n \<noteq> 0" and len: "\<not> length (ts @ [Lit c]) < ?n - 1"
      by (auto simp: Let_def split: if_splits)
    from "3.prems" False n0 len obtain bs where
      e: "esc_bytes (take (?n - 1) (ts @ [Lit c])) = Some bs" and ok: "utf8_ok (b # bs)"
      by (auto simp: Let_def split: option.splits if_splits)
    have le: "?n - 1 \<le> length ts"
    proof (rule ccontr)
      assume "\<not> ?n - 1 \<le> length ts"
      then have "length (ts @ [Lit c]) \<le> ?n - 1" by simp
      then have all: "take (?n - 1) (ts @ [Lit c]) = ts @ [Lit c]" by (rule take_all)
      have "Lit c \<notin> set (ts @ [Lit c])"
        using esc_bytes_all [OF e, of c] unfolding all .
      then show False by simp
    qed
    then have tk: "take (?n - 1) (ts @ [Lit c]) = take (?n - 1) ts"
      and dr: "drop (?n - 1) (ts @ [Lit c]) = drop (?n - 1) ts @ [Lit c]"
      by simp_all
    have z: "?n - Suc (length ts) = 0" using le by simp
    from "3.prems" False n0 len e ok obtain r where
      r: "decode_tokens (drop (?n - 1) ts @ [Lit c]) = Some r"
      and d: "d = map char_of (b # bs) @ r"
      by (auto simp: Let_def z split: option.splits if_splits)
    have "\<not> (?n = 0 \<or> length ts < ?n - 1)" using n0 le by simp
    from "3.IH"(2) [OF False refl this _ _ r] e ok tk obtain d' where "r = d' @ [c]"
      by auto
    with d show ?thesis by auto
  qed
qed

lemma decode_snoc:
  assumes "decode (s @ ''/'') = Some d"
  shows "\<exists>d'. d = d' @ ''/''"
proof -
  from assms obtain ts where t: "tokens (s @ ''/'') = Some ts" and d: "decode_tokens ts = Some d"
    by (auto simp: decode_def decodeURIComponent_def split: option.splits)
  have "hex_val CHR ''/'' = None" by (simp add: hex_val_def)
  with tokens_snoc [OF t] obtain ts' where "ts = ts' @ [Lit CHR ''/'']" by auto
  with d decode_tokens_snoc show ?thesis by blast
qed

lemma climbs_append: "climbs n xs \<Longrightarrow> climbs n (xs @ ys)"
  by (induction xs arbitrary: n) (auto split: nat.splits if_splits)

lemma climbs_snoc_empty: "climbs n (xs @ [[]]) = climbs n xs"
  by (induction xs arbitrary: n) (auto split: nat.splits)

lemma with_index_climbs:
  assumes "decode (drop (length (parse_root path)) path) = Some d"
    and "climbs 0 (split_on sep d)"
  shows "climbs 0 (split_on sep (with_index opt (ends_with CHR ''/'' path) d))"
proof (cases "truthy_str (opt_index opt) \<and> ends_with CHR ''/'' path")
  case False
  with assms(2) show ?thesis by (auto simp: with_index_def)
next
  case True
  let ?p1 = "drop (length (parse_root path)) path"
  have "d \<noteq> []" using assms(2) by auto
  with assms(1) have "?p1 \<noteq> []"
    by (auto simp: decode_def decodeURIComponent_def)
  moreover from True have "path \<noteq> []" and "last path = CHR ''/''"
    by (auto simp: ends_with_def last_rev [symmetric] hd_rev split: list.splits)
  ultimately have "last ?p1 = CHR ''/''" by simp
  with \<open>?p1 \<noteq> []\<close> obtain s where "?p1 = s @ ''/''"
    by (metis append_butlast_last_id)
  with assms(1) decode_snoc obtain d' where d: "d = d' @ ''/''" by metis
  have "split_on sep d = split_on sep d' @ [[]]"
    using split_on_append [of sep d' "[]"] by (simp add: d sep_def)
  with assms(2) have c: "climbs 0 (split_on sep d')" by (simp add: climbs_snoc_empty)
  have "split_on sep (d @ str_of (opt_index opt))
          = split_on sep d' @ split_on sep (str_of (opt_index opt))"
    using split_on_append [of sep d' "str_of (opt_index opt)"] by (simp add: d sep_def)
  with c True show ?thesis by (simp add: with_index_def climbs_append)
qed

subsection \<open>Decoding an encoded path\<close>

lemma hex_val_hex_digit: "n < 16 \<Longrightarrow> hex_val (hex_digit n) = Some n"
  by (auto simp: hex_val_def hex_digit_def Let_def)

lemma tokens_pct_byte:
  "tokens (pct_byte c @ rest) = map_option ((#) (Esc (of_char c))) (tokens rest)"
proof -
  have "(of_char c :: nat) < 256" by (rule nat_of_char_less_256)
  then have "(of_char c :: nat) div 16 < 16" by arith
  then show ?thesis by (simp add: pct_byte_def hex_val_hex_digit)
qed

lemma tok_keep: "keep c \<Longrightarrow> tok keep c = Lit c"
  by (simp add: tok_def)

lemma tok_drop: "\<not> keep c \<Longrightarrow> tok keep c = Esc (of_char c)"
  by (simp add: tok_def)

lemma tokens_encode:
  assumes "\<forall>c. keep c \<longrightarrow> c \<noteq> CHR ''%''"
  shows "tokens (pct_encode keep p) = Some (map (tok keep) p)"
proof (induction p)
  case Nil
  then show ?case by (simp add: pct_encode_def)
next
  case (Cons c p)
  have e: "pct_encode keep (c # p) = (if keep c then [c] else pct_byte c) @ pct_encode keep p"
    by (simp add: pct_encode_def)
  show ?case
  proof (cases "keep c")
    case True
    with assms have "c \<noteq> CHR ''%''" by simp
    with True Cons show ?thesis by (simp add: e tok_keep)
  next
    case False
    with Cons show ?thesis by (simp add: e tok_drop tokens_pct_byte)
  qed
qed

lemma utf8_ok_high: "utf8_ok (b # bs) \<Longrightarrow> x \<in> set bs \<Longrightarrow> 128 \<le> x"
  by (erule utf8_ok.elims) (auto simp: cont_def)

lemma esc_bytes_map:
  "\<forall>c \<in> set cs. \<not> keep c \<Longrightarrow> esc_bytes (map (tok keep) cs) = Some (map of_char cs)"
  by (induction cs) (auto simp: tok_drop)

lemma decode_tokens_encode:
  assumes k: "\<forall>c. keep c \<longrightarrow> (of_char c :: nat) < 128"
  shows "well_formed (map of_char p) \<Longrightarrow> decode_tokens (map (tok keep) p) = Some p"
proof (induction p rule: length_induct)
  case (1 p)
  show ?case
  proof (cases p)
    case Nil
    then show ?thesis by simp
  next
    case (Cons c cs)
    let ?b = "of_char c :: nat"
    show ?thesis
    proof (cases "?b < 128")
      case True
      with "1.prems" Cons have "well_formed (map of_char cs)" by simp
      with "1.IH" Cons have "decode_tokens (map (tok keep) cs) = Some cs" by simp
      with True Cons show ?thesis by (cases "keep c") (simp_all add: tok_keep tok_drop)
    next
      case False
      let ?n = "seq_len ?b"
      from "1.prems" Cons False have n0: "?n \<noteq> 0" and le: "?n - 1 \<le> length cs"
        and ok: "utf8_ok (?b # take (?n - 1) (map of_char cs))"
        and wf: "well_formed (drop (?n - 1) (map of_char cs))"
        by (simp_all add: Let_def)
      have nk: "\<not> keep c" using k False by auto
      have hi: "\<forall>x \<in> set (take (?n - 1) cs). \<not> keep x"
      proof
        fix x assume "x \<in> set (take (?n - 1) cs)"
        then have "of_char x \<in> set (take (?n - 1) (map of_char cs))"
          by (simp add: take_map)
        with utf8_ok_high [OF ok] have "128 \<le> (of_char x :: nat)" by blast
        with k show "\<not> keep x" by force
      qed
      have eb: "esc_bytes (take (?n - 1) (map (tok keep) cs))
                  = Some (take (?n - 1) (map of_char cs))"
        using esc_bytes_map [OF hi] by (simp add: take_map)
      have "length (drop (?n - 1) cs) < length p" using Cons by simp
      moreover have "well_formed (map of_char (drop (?n - 1) cs))"
        using wf by (simp add: drop_map)
      ultimately have ih: "decode_tokens (map (tok keep) (drop (?n - 1) cs))
                             = Some (drop (?n - 1) cs)"
        using "1.IH" by blast
      have "map char_of (take (?n - 1) (map of_char cs) :: nat list) = take (?n - 1) cs"
        by (simp add: take_map comp_def)
      with Cons nk False n0 le eb ok ih show ?thesis
        by (simp add: tok_drop Let_def drop_map)
    qed
  qed
qed

lemma decode_encode:
  assumes "\<forall>c. keep c \<longrightarrow> c \<noteq> CHR ''%'' \<and> (of_char c :: nat) < 128" and "utf8_string p"
  shows "decode (pct_encode keep p) = Some p"
  using assms tokens_encode [of keep p] decode_tokens_encode [of keep p]
  by (simp add: decode_def decodeURIComponent_def utf8_string_def)

lemma tokens_plain: "CHR ''%'' \<notin> set p \<Longrightarrow> tokens p = Some (map Lit p)"
  by (induction p) auto

lemma decode_tokens_plain: "decode_tokens (map Lit p) = Some p"
  by (induction p) auto

lemma decode_plain: "CHR ''%'' \<notin> set p \<Longrightarrow> decode p = Some p"
  by (simp add: decode_def decodeURIComponent_def tokens_plain decode_tokens_plain)


lemma pct_encode_Cons:
  "pct_encode keep (c # p) = (if keep c then [c] else pct_byte c) @ pct_encode keep p"
  by (simp add: pct_encode_def)

lemma pct_encode_append: "pct_encode keep (a @ b) = pct_encode keep a @ pct_encode keep b"
  by (simp add: pct_encode_def)

lemma pct_encode_empty: "pct_encode keep p = [] \<longleftrightarrow> p = []"
  by (cases p) (auto simp: pct_encode_Cons pct_byte_def pct_encode_def)

lemma hex_digit_not_slash: "n < 16 \<Longrightarrow> hex_digit n \<noteq> CHR ''/''"
proof
  assume n: "n < 16" and "hex_digit n = CHR ''/''"
  then have "(of_char (hex_digit n) :: nat) = 47" by simp
  with n show False by (auto simp: hex_digit_def split: if_splits)
qed

lemma ends_with_last: "ends_with c s \<longleftrightarrow> s \<noteq> [] \<and> last s = c"
  by (cases s rule: rev_cases) (auto simp: ends_with_def)

lemma ends_with_encode:
  assumes "keep CHR ''/''"
  shows "ends_with CHR ''/'' (pct_encode keep p) = ends_with CHR ''/'' p"
proof (cases p rule: rev_cases)
  case Nil
  then show ?thesis by (simp add: pct_encode_def)
next
  case (snoc q c)
  have ne: "pct_encode keep [c] \<noteq> []" by (simp add: pct_encode_empty)
  have "(of_char c :: nat) mod 16 < 16" by simp
  from hex_digit_not_slash [OF this]
  have "last (pct_encode keep [c]) = CHR ''/'' \<longleftrightarrow> c = CHR ''/''"
    using assms by (auto simp: pct_encode_Cons pct_byte_def pct_encode_def)
  then show ?thesis
    using snoc ne by (simp add: pct_encode_append ends_with_last)
qed

lemma starts_with_encode:
  "keep CHR ''/'' \<Longrightarrow> starts_with CHR ''/'' (pct_encode keep p) = starts_with CHR ''/'' p"
  by (cases p) (auto simp: pct_encode_Cons pct_byte_def starts_with_def pct_encode_def)

lemma strip_encode:
  assumes "keep CHR ''/''"
  shows "drop (length (parse_root (pct_encode keep p))) (pct_encode keep p)
           = pct_encode keep (drop (length (parse_root p)) p)"
proof (cases "starts_with CHR ''/'' p")
  case False
  with assms starts_with_encode [of keep p] show ?thesis
    by (simp add: parse_root_def isAbsolute_def sep_def)
next
  case True
  then obtain cs where p: "p = CHR ''/'' # cs"
    by (cases p) (auto simp: starts_with_def)
  with assms True starts_with_encode [of keep p] show ?thesis
    by (simp add: parse_root_def isAbsolute_def sep_def pct_encode_Cons)
qed

lemma utf8_string_strip: "utf8_string p \<Longrightarrow> utf8_string (drop (length (parse_root p)) p)"
  by (cases p) (auto simp: utf8_string_def parse_root_def isAbsolute_def starts_with_def sep_def)

lemma join_request_encode:
  assumes "\<forall>c. keep c \<longrightarrow> c \<noteq> CHR ''%'' \<and> (of_char c :: nat) < 128"
    and "keep CHR ''/''" and "utf8_string p" and "CHR ''%'' \<notin> set p"
  shows "join_request e (pct_encode keep p) opt = join_request e p opt"
proof -
  let ?p1 = "drop (length (parse_root p)) p"
  have "CHR ''%'' \<notin> set ?p1" using assms(4) by (meson in_set_dropD)
  then have d: "decode ?p1 = Some ?p1" by (rule decode_plain)
  have d': "decode (pct_encode keep ?p1) = Some ?p1"
    using assms(1) utf8_string_strip [OF assms(3)] by (rule decode_encode)
  show ?thesis
    using assms(2)
    by (simp add: join_request_def Let_def pct_encode_empty ends_with_encode strip_encode d d')
qed

lemma uri_unescaped_literal:
  "\<forall>c. uri_unescaped c \<longrightarrow> c \<noteq> CHR ''%'' \<and> (of_char c :: nat) < 128"
  by (auto simp: uri_unescaped_def component_unescaped_def is_alpha_def is_digit_def Let_def)

section \<open>Classification of stat failures\<close>

text \<open>
  Claim C3. Whenever the last file system call of a run is a stat that fails with the
  error \<open>err\<close> (the stat of the candidate path, or the second stat, of the index file
  of a directory), the run ends with \<open>Failed\<close> carrying that same error; the status is
  404 exactly when the error code is \<open>ENOENT\<close>, \<open>ENAMETOOLONG\<close> or \<open>ENOTDIR\<close>, and 500
  exactly when it is any other code.
\<close>

theorem stat_error_classification:
  assumes "calls (send e ctx path opt) \<noteq> []"
    and "last (calls (send e ctx path opt)) = Stat q"
    and "fs_stat e q = Inl err"
  shows "\<exists>status. outcome (send e ctx path opt) = Failed (StatError status err)
           \<and> (status = 404 \<longleftrightarrow> code err \<in> {''ENOENT'', ''ENAMETOOLONG'', ''ENOTDIR''})
           \<and> (status = 500 \<longleftrightarrow> code err \<notin> {''ENOENT'', ''ENAMETOOLONG'', ''ENOTDIR''})"
proof -
  have "send e ctx path opt = serve e ctx opt p
          \<Longrightarrow> outcome (send e ctx path opt) = Failed (stat_failure err)" for p
    using assms serve_stat_failure [of e ctx opt p q err] by simp
  moreover have "calls (send e ctx path opt) = []
      \<or> (\<exists>p. send e ctx path opt = serve e ctx opt p)"
    by (auto simp: send_def split: sum.splits)
  ultimately have "outcome (send e ctx path opt) = Failed (stat_failure err)"
    using assms(1) by blast
  then show ?thesis
    by (auto simp: stat_failure_def notfound_def)
qed

text \<open>On the sample site, \<open>/locked\<close> cannot be read (500) and \<open>/nothing\<close> does not exist
  (404).\<close>

theorem stat_error_classification_witness:
  "calls (send demo_env plain_ctx ''/locked'' demo_opts) \<noteq> []
   \<and> last (calls (send demo_env plain_ctx ''/locked'' demo_opts)) = Stat ''/www/locked''
   \<and> fs_stat demo_env ''/www/locked'' = Inl (FsError ''EACCES'')
   \<and> outcome (send demo_env plain_ctx ''/locked'' demo_opts)
       = Failed (StatError 500 (FsError ''EACCES''))
   \<and> calls (send demo_env plain_ctx ''/nothing'' demo_opts) \<noteq> []
   \<and> last (calls (send demo_env plain_ctx ''/nothing'' demo_opts)) = Stat ''/www/nothing''
   \<and> fs_stat demo_env ''/www/nothing'' = Inl (FsError ''ENOENT'')
   \<and> outcome (send demo_env plain_ctx ''/nothing'' demo_opts)
       = Failed (StatError 404 (FsError ''ENOENT''))"
proof -
  have c1: "calls (send demo_env plain_ctx ''/locked'' demo_opts) = [Stat ''/www/locked'']"
    by code_simp
  have s1: "fs_stat demo_env ''/www/locked'' = Inl (FsError ''EACCES'')"
    by code_simp
  have c2: "calls (send demo_env plain_ctx ''/nothing'' demo_opts) = [Stat ''/www/nothing'']"
    by code_simp
  have s2: "fs_stat demo_env ''/www/nothing'' = Inl (FsError ''ENOENT'')"
    by code_simp
  have o1: "outcome (send demo_env plain_ctx ''/locked'' demo_opts)
              = Failed (StatError 500 (FsError ''EACCES''))"
    using stat_error_classification
      [of demo_env plain_ctx "''/locked''" demo_opts "''/www/locked''" "FsError ''EACCES''"]
      c1 s1 by auto
  have o2: "outcome (send demo_env plain_ctx ''/nothing'' demo_opts)
              = Failed (StatError 404 (FsError ''ENOENT''))"
    using stat_error_classification
      [of demo_env plain_ctx "''/nothing''" demo_opts "''/www/nothing''" "FsError ''ENOENT''"]
      c2 s2 by auto
  show ?thesis
    using c1 s1 c2 s2 o1 o2 by simp
qed

section \<open>The cache lifetime option\<close>

text \<open>
  Claim C9, as the code has it. The lifetime is read from \<open>maxage\<close> and from \<open>maxAge\<close>.
  A \<open>maxage\<close> other than 0 is the lifetime, whatever \<open>maxAge\<close> is. When \<open>maxage\<close> is not
  supplied or is 0, the lifetime is \<open>maxAge\<close>. When each of the two is not supplied or
  is 0, the lifetime is 0.
\<close>

theorem maxage_lookup:
  "(opt_maxage opt = Some a \<and> a \<noteq> 0 \<longrightarrow> maxage_of opt = a)
   \<and> ((opt_maxage opt = None \<or> opt_maxage opt = Some 0) \<and> opt_maxAge opt = Some b
        \<longrightarrow> maxage_of opt = b)
   \<and> ((opt_maxage opt = None \<or> opt_maxage opt = Some 0)
        \<and> (opt_maxAge opt = None \<or> opt_maxAge opt = Some 0) \<longrightarrow> maxage_of opt = 0)"
  by (auto simp: maxage_of_def or_num_def)

theorem maxage_lookup_witness:
  "opt_maxage (demo_opts\<lparr>opt_maxage := Some 5000, opt_maxAge := Some 1000\<rparr>) = Some 5000
   \<and> maxage_of (demo_opts\<lparr>opt_maxage := Some 5000, opt_maxAge := Some 1000\<rparr>) = 5000
   \<and> opt_maxage (demo_opts\<lparr>opt_maxAge := Some 1000\<rparr>) = None
   \<and> opt_maxAge (demo_opts\<lparr>opt_maxAge := Some 1000\<rparr>) = Some 1000
   \<and> maxage_of (demo_opts\<lparr>opt_maxAge := Some 1000\<rparr>) = 1000
   \<and> opt_maxage demo_opts = None \<and> opt_maxAge demo_opts = None
   \<and> maxage_of demo_opts = 0"
  using maxage_lookup [of "demo_opts\<lparr>opt_maxage := Some 5000, opt_maxAge := Some 1000\<rparr>" 5000 0]
    maxage_lookup [of "demo_opts\<lparr>opt_maxAge := Some 1000\<rparr>" 0 1000]
    maxage_lookup [of demo_opts 0 0]
  by (simp add: demo_opts_def)

text \<open>
  Claim C9 as stated fails when both keys are supplied and \<open>maxage\<close> is 0: the lifetime
  is then \<open>maxAge\<close>, and the header of a served file shows it.
\<close>

theorem maxage_zero_counterexample:
  "opt_maxage (demo_opts\<lparr>opt_maxage := Some 0, opt_maxAge := Some 60000\<rparr>) = Some 0
   \<and> opt_maxAge (demo_opts\<lparr>opt_maxage := Some 0, opt_maxAge := Some 60000\<rparr>) = Some 60000
   \<and> maxage_of (demo_opts\<lparr>opt_maxage := Some 0, opt_maxAge := Some 60000\<rparr>) = 60000
   \<and> response_get ''Cache-Control''
        (ctx_out (send demo_env plain_ctx ''/index.html''
           (demo_opts\<lparr>opt_maxage := Some 0, opt_maxAge := Some 60000\<rparr>))) = ''max-age=60''"
proof -
  have "response_get ''Cache-Control''
        (ctx_out (send demo_env plain_ctx ''/index.html''
           (demo_opts\<lparr>opt_maxage := Some 0, opt_maxAge := Some 60000\<rparr>))) = ''max-age=60''"
    by code_simp
  then show ?thesis
    by (simp add: maxage_of_def or_num_def demo_opts_def)
qed

section \<open>Extension fallback and dotted basenames\<close>

text \<open>
  Claim C10. When the basename of the candidate path (the path as it leaves the
  negotiation of precompressed variants) contains a dot anywhere, extension fallback is
  skipped: the fallback stage returns the path unchanged and makes no call, the calls of
  the whole run are those of the negotiation followed by those of the stat of that very
  path, and the run is the run that the same request has with \<open>extensions\<close> disabled.
\<close>

theorem dotted_basename_skips_fallback:
  assumes "join_request e path opt = Inr p"
    and "hidden_of opt \<or> \<not> isHidden (root_of e opt) p"
    and "negotiate e ctx opt p = (p1, x, ctx1, cs1)"
    and "CHR ''.'' \<in> set (basename p1)"
  shows "extension_fallback e opt p1 = (Inr p1, [])
    \<and> calls (send e ctx path opt) = cs1 @ snd (stat_stage e opt p1)
    \<and> send e ctx path opt = send e ctx path (opt\<lparr>opt_extensions := None\<rparr>)"
proof -
  have a: "extension_fallback e opt p1 = (Inr p1, [])"
    using assms(4) by (rule extension_fallback_dot)
  have s: "send e ctx path opt = serve e ctx opt p"
    using assms(1,2) by (rule send_serve)
  have b: "calls (send e ctx path opt) = cs1 @ snd (stat_stage e opt p1)"
    using s serve_calls_dot [OF assms(3,4)] by simp
  have s': "send e ctx path (opt\<lparr>opt_extensions := None\<rparr>)
              = serve e ctx (opt\<lparr>opt_extensions := None\<rparr>) p"
    using assms(1,2) by (auto simp: send_def)
  have a': "extension_fallback e (opt\<lparr>opt_extensions := None\<rparr>) p1 = (Inr p1, [])"
    by (simp add: extension_fallback_def)
  have "serve e ctx (opt\<lparr>opt_extensions := None\<rparr>) p = serve e ctx opt p"
    by (simp add: serve_def assms(3) a a' cong: prod.case_cong sum.case_cong)
  with s s' a b show ?thesis by simp
qed

text \<open>On the sample site \<open>/app.v2\<close> is served as it is, although \<open>/www/app.v2.html\<close>
  exists and \<open>html\<close> is in the list.\<close>

theorem dotted_basename_skips_fallback_witness:
  "join_request demo_env ''/app.v2'' (demo_opts\<lparr>opt_extensions := Some [JStr ''html'']\<rparr>)
     = Inr ''/www/app.v2''
   \<and> negotiate demo_env plain_ctx (demo_opts\<lparr>opt_extensions := Some [JStr ''html'']\<rparr>)
       ''/www/app.v2'' = (''/www/app.v2'', [], plain_ctx, [])
   \<and> CHR ''.'' \<in> set (basename ''/www/app.v2'')
   \<and> fs_access demo_env ''/www/app.v2.html''
   \<and> calls (send demo_env plain_ctx ''/app.v2''
        (demo_opts\<lparr>opt_extensions := Some [JStr ''html'']\<rparr>)) = [Stat ''/www/app.v2'']
   \<and> outcome (send demo_env plain_ctx ''/app.v2''
        (demo_opts\<lparr>opt_extensions := Some [JStr ''html'']\<rparr>)) = Resolved ''/www/app.v2''"
proof -
  let ?o = "demo_opts\<lparr>opt_extensions := Some [JStr ''html'']\<rparr>"
  have j: "join_request demo_env ''/app.v2'' ?o = Inr ''/www/app.v2''"
    by code_simp
  have h: "hidden_of ?o \<or> \<not> isHidden (root_of demo_env ?o) ''/www/app.v2''"
    by code_simp
  have n: "negotiate demo_env plain_ctx ?o ''/www/app.v2'' = (''/www/app.v2'', [], plain_ctx, [])"
    by (simp add: negotiate_def plain_ctx_def)
  have b: "CHR ''.'' \<in> set (basename ''/www/app.v2'')"
    by code_simp
  have a: "fs_access demo_env ''/www/app.v2.html''"
    by code_simp
  have st: "snd (stat_stage demo_env ?o ''/www/app.v2'') = [Stat ''/www/app.v2'']"
    by code_simp
  have r: "outcome (send demo_env plain_ctx ''/app.v2'' (?o\<lparr>opt_extensions := None\<rparr>))
             = Resolved ''/www/app.v2''"
    by code_simp
  note t = dotted_basename_skips_fallback [OF j h n b]
  have "calls (send demo_env plain_ctx ''/app.v2'' ?o)
          = [] @ snd (stat_stage demo_env ?o ''/www/app.v2'')"
    by (rule conjunct1 [OF conjunct2 [OF t]])
  then have c: "calls (send demo_env plain_ctx ''/app.v2'' ?o) = [Stat ''/www/app.v2'']"
    using st by simp
  have "send demo_env plain_ctx ''/app.v2'' ?o
          = send demo_env plain_ctx ''/app.v2'' (?o\<lparr>opt_extensions := None\<rparr>)"
    by (rule conjunct2 [OF conjunct2 [OF t]])
  then have "outcome (send demo_env plain_ctx ''/app.v2'' ?o) = Resolved ''/www/app.v2''"
    using r by simp
  with j n b a c show ?thesis by simp
qed

section \<open>Hidden files\<close>

text \<open>
  Claim C4. Let \<open>p\<close> be the path that the join onto the root returns for a request, and let
  some segment of \<open>p\<close> behind the root start with a dot. When the \<open>hidden\<close> option is not
  true, \<open>send\<close> returns nothing (the outcome NotApplicable, which is not a failure), leaves
  the context as it was and makes no file system call. When \<open>hidden\<close> is true, the run
  continues with the rest of the pipeline on \<open>p\<close>.
\<close>

theorem hidden_filter:
  assumes "join_request e path opt = Inr p"
    and "\<exists>seg \<in> set (split_on CHR ''/'' (drop (length (root_of e opt)) p)).
           seg \<noteq> [] \<and> hd seg = CHR ''.''"
  shows "(opt_hidden opt \<noteq> Some True \<longrightarrow>
            send e ctx path opt = \<lparr>outcome = NotApplicable, ctx_out = ctx, calls = []\<rparr>)
    \<and> (opt_hidden opt = Some True \<longrightarrow> send e ctx path opt = serve e ctx opt p)"
  using assms by (auto simp: send_def isHidden_def hidden_loop_iff hidden_of_def sep_def)

text \<open>On the sample site \<open>/.env\<close> is passed over by default and served when \<open>hidden\<close> is
  true.\<close>

theorem hidden_filter_witness:
  "join_request demo_env ''/.env'' demo_opts = Inr ''/www/.env''
   \<and> ''.env'' \<in> set (split_on CHR ''/'' (drop (length (root_of demo_env demo_opts)) ''/www/.env''))
   \<and> opt_hidden demo_opts \<noteq> Some True
   \<and> send demo_env plain_ctx ''/.env'' demo_opts
       = \<lparr>outcome = NotApplicable, ctx_out = plain_ctx, calls = []\<rparr>
   \<and> join_request demo_env ''/.env'' (demo_opts\<lparr>opt_hidden := Some True\<rparr>) = Inr ''/www/.env''
   \<and> outcome (send demo_env plain_ctx ''/.env'' (demo_opts\<lparr>opt_hidden := Some True\<rparr>))
       = Resolved ''/www/.env''"
proof -
  let ?o = "demo_opts\<lparr>opt_hidden := Some True\<rparr>"
  have j: "join_request demo_env ''/.env'' demo_opts = Inr ''/www/.env''"
    by code_simp
  have j': "join_request demo_env ''/.env'' ?o = Inr ''/www/.env''"
    by code_simp
  have m: "''.env'' \<in> set (split_on CHR ''/''
             (drop (length (root_of demo_env demo_opts)) ''/www/.env''))"
    by code_simp
  have m': "''.env'' \<in> set (split_on CHR ''/'' (drop (length (root_of demo_env ?o)) ''/www/.env''))"
    by code_simp
  have ex: "\<exists>seg \<in> set (split_on CHR ''/''
              (drop (length (root_of demo_env demo_opts)) ''/www/.env'')).
              seg \<noteq> [] \<and> hd seg = CHR ''.''"
    using m by (rule bexI [rotated]) simp
  have ex': "\<exists>seg \<in> set (split_on CHR ''/'' (drop (length (root_of demo_env ?o)) ''/www/.env'')).
              seg \<noteq> [] \<and> hd seg = CHR ''.''"
    using m' by (rule bexI [rotated]) simp
  have f: "opt_hidden demo_opts \<noteq> Some True"
    by (simp add: demo_opts_def)
  have r: "outcome (serve demo_env plain_ctx ?o ''/www/.env'') = Resolved ''/www/.env''"
    by code_simp
  have 1: "send demo_env plain_ctx ''/.env'' demo_opts
             = \<lparr>outcome = NotApplicable, ctx_out = plain_ctx, calls = []\<rparr>"
    using hidden_filter [OF j ex, of plain_ctx] f by simp
  have 2: "outcome (send demo_env plain_ctx ''/.env'' ?o) = Resolved ''/www/.env''"
    using hidden_filter [OF j' ex', of plain_ctx] r by simp
  from j m f 1 j' 2 show ?thesis by simp
qed

section \<open>Precompressed variants\<close>

text \<open>
  Claim C2. Let \<open>p\<close> be the candidate path of a request (joined onto the root, past the
  hidden check). If the negotiation answers \<open>br\<close> for \<open>br\<close> and \<open>gzip\<close> for \<open>gzip\<close>, the
  options \<open>brotli\<close> and \<open>gzip\<close> are not switched off, and both \<open>p.br\<close> and \<open>p.gz\<close> exist,
  then the negotiation stage rewrites the path to \<open>p.br\<close>, sets \<open>encodingExt\<close> to \<open>.br\<close>
  (and \<open>Content-Encoding\<close> to \<open>br\<close>, dropping \<open>Content-Length\<close>) with the single call
  \<open>exists(p.br)\<close>; the calls of the whole run are that call and then the stat calls on
  \<open>p.br\<close>, so the existence of \<open>p.gz\<close> is never checked.
\<close>

theorem brotli_first:
  assumes "join_request e path opt = Inr p"
    and "hidden_of opt \<or> \<not> isHidden (root_of e opt) p"
    and "acceptsEncodings ctx [''br'', ''identity''] = Some ''br''"
    and "acceptsEncodings ctx [''gzip'', ''identity''] = Some ''gzip''"
    and "opt_brotli opt \<noteq> Some False" and "opt_gzip opt \<noteq> Some False"
    and "fs_access e (p @ ''.br'')" and "fs_access e (p @ ''.gz'')"
  shows "negotiate e ctx opt p =
           (p @ ''.br'', ''.br'',
            removeHeader ''Content-Length'' (ctx_set ''Content-Encoding'' ''br'' ctx),
            [Access (p @ ''.br'')])
    \<and> calls (send e ctx path opt) = Access (p @ ''.br'') # snd (stat_stage e opt (p @ ''.br''))
    \<and> Access (p @ ''.gz'') \<notin> set (calls (send e ctx path opt))"
proof -
  have n: "negotiate e ctx opt p =
           (p @ ''.br'', ''.br'',
            removeHeader ''Content-Length'' (ctx_set ''Content-Encoding'' ''br'' ctx),
            [Access (p @ ''.br'')])"
    using assms(3,5,7) by (simp add: negotiate_def brotli_of_def exists_def)
  have s: "send e ctx path opt = serve e ctx opt p"
    using assms(1,2) by (rule send_serve)
  have c: "calls (send e ctx path opt)
             = Access (p @ ''.br'') # snd (stat_stage e opt (p @ ''.br''))"
    using s serve_calls_dot [OF n basename_br] by simp
  have "Access (p @ ''.gz'') \<notin> set (snd (stat_stage e opt (p @ ''.br'')))"
    using stat_stage_calls [of e opt "p @ ''.br''"] by (metis fs_call.distinct(1) prod.collapse)
  with n c show ?thesis by simp
qed

text \<open>On the sample site both \<open>/www/app.js.br\<close> and \<open>/www/app.js.gz\<close> exist.\<close>

theorem brotli_first_witness:
  "join_request demo_env ''/app.js'' demo_opts = Inr ''/www/app.js''
   \<and> acceptsEncodings demo_ctx [''br'', ''identity''] = Some ''br''
   \<and> acceptsEncodings demo_ctx [''gzip'', ''identity''] = Some ''gzip''
   \<and> opt_brotli demo_opts \<noteq> Some False \<and> opt_gzip demo_opts \<noteq> Some False
   \<and> fs_access demo_env ''/www/app.js.br'' \<and> fs_access demo_env ''/www/app.js.gz''
   \<and> calls (send demo_env demo_ctx ''/app.js'' demo_opts)
       = [Access ''/www/app.js.br'', Stat ''/www/app.js.br'']
   \<and> Access ''/www/app.js.gz'' \<notin> set (calls (send demo_env demo_ctx ''/app.js'' demo_opts))"
proof -
  have j: "join_request demo_env ''/app.js'' demo_opts = Inr ''/www/app.js''"
    by code_simp
  have h: "hidden_of demo_opts \<or> \<not> isHidden (root_of demo_env demo_opts) ''/www/app.js''"
    by code_simp
  have b: "acceptsEncodings demo_ctx [''br'', ''identity''] = Some ''br''"
    by code_simp
  have g: "acceptsEncodings demo_ctx [''gzip'', ''identity''] = Some ''gzip''"
    by code_simp
  have ob: "opt_brotli demo_opts \<noteq> Some False" and og: "opt_gzip demo_opts \<noteq> Some False"
    by (simp_all add: demo_opts_def)
  have fb: "fs_access demo_env (''/www/app.js'' @ ''.br'')"
    and fg: "fs_access demo_env (''/www/app.js'' @ ''.gz'')"
    by code_simp+
  have st: "snd (stat_stage demo_env demo_opts (''/www/app.js'' @ ''.br''))
              = [Stat ''/www/app.js.br'']"
    by code_simp
  from brotli_first [OF j h b g ob og fb fg] st
  have "calls (send demo_env demo_ctx ''/app.js'' demo_opts)
          = [Access ''/www/app.js.br'', Stat ''/www/app.js.br'']"
    and "Access ''/www/app.js.gz'' \<notin> set (calls (send demo_env demo_ctx ''/app.js'' demo_opts))"
    by simp_all
  with j b g ob og fb fg show ?thesis by simp
qed

section \<open>Entries of the extensions list that are not strings\<close>

text \<open>
  Claim C5, as the code has it. The type of an entry is checked when the loop reaches it.
  Let the fallback run (the basename of the candidate path has no dot), let the list hold
  the strings \<open>pre\<close>, then an entry that is not a string, and let none of the candidates
  of \<open>pre\<close> exist. Then \<open>send\<close> fails with the TypeError of the \<open>extensions\<close> option; the
  file system calls made before are those of the negotiation of precompressed variants
  and one existence check for each entry of \<open>pre\<close>, in order, and nothing else: no check
  for the offending entry or a later one, and no stat.
\<close>

theorem bad_extension_entry:
  assumes "join_request e path opt = Inr p"
    and "hidden_of opt \<or> \<not> isHidden (root_of e opt) p"
    and "negotiate e ctx opt p = (p1, x, ctx1, cs1)"
    and "CHR ''.'' \<notin> set (basename p1)"
    and "opt_extensions opt = Some (map JStr pre @ v # post)"
    and "\<forall>s. v \<noteq> JStr s"
    and "\<forall>s \<in> set pre. \<not> fs_access e (p1 @ with_dot s)"
  shows "outcome (send e ctx path opt)
           = Failed (TypeError ''option extensions must be array of strings or false'')
    \<and> calls (send e ctx path opt) = cs1 @ map (\<lambda>s. Access (p1 @ with_dot s)) pre"
proof -
  have "extension_fallback e opt p1 =
          (Inl (TypeError ''option extensions must be array of strings or false''),
           map (\<lambda>s. Access (p1 @ with_dot s)) pre)"
    using assms(4,5) ext_loop_bad_entry [OF assms(7,6)] by (simp add: extension_fallback_def)
  then show ?thesis
    using send_serve [OF assms(1,2)] assms(3) by (simp add: serve_def)
qed

theorem bad_extension_entry_witness:
  "join_request demo_env ''/about''
     (demo_opts\<lparr>opt_extensions := Some [JStr ''html'', JNum 3, JStr ''htm'']\<rparr>)
     = Inr ''/www/about''
   \<and> CHR ''.'' \<notin> set (basename ''/www/about'')
   \<and> \<not> fs_access demo_env (''/www/about'' @ with_dot ''html'')
   \<and> outcome (send demo_env plain_ctx ''/about''
        (demo_opts\<lparr>opt_extensions := Some [JStr ''html'', JNum 3, JStr ''htm'']\<rparr>))
       = Failed (TypeError ''option extensions must be array of strings or false'')
   \<and> calls (send demo_env plain_ctx ''/about''
        (demo_opts\<lparr>opt_extensions := Some [JStr ''html'', JNum 3, JStr ''htm'']\<rparr>))
       = [Access ''/www/about.html'']"
proof -
  let ?o = "demo_opts\<lparr>opt_extensions := Some [JStr ''html'', JNum 3, JStr ''htm'']\<rparr>"
  have j: "join_request demo_env ''/about'' ?o = Inr ''/www/about''"
    by code_simp
  have h: "hidden_of ?o \<or> \<not> isHidden (root_of demo_env ?o) ''/www/about''"
    by code_simp
  have n: "negotiate demo_env plain_ctx ?o ''/www/about'' = (''/www/about'', [], plain_ctx, [])"
    by (simp add: negotiate_def plain_ctx_def)
  have b: "CHR ''.'' \<notin> set (basename ''/www/about'')"
    by code_simp
  have l: "opt_extensions ?o = Some (map JStr [''html''] @ JNum 3 # [JStr ''htm''])"
    by simp
  have v: "\<forall>s. JNum 3 \<noteq> JStr s"
    by simp
  have a: "\<not> fs_access demo_env (''/www/about'' @ with_dot ''html'')"
    by code_simp
  then have a': "\<forall>s \<in> set [''html'']. \<not> fs_access demo_env (''/www/about'' @ with_dot s)"
    by simp
  have w: "with_dot ''html'' = ''.html''"
    by code_simp
  from bad_extension_entry [OF j h n b l v a'] w
  have "outcome (send demo_env plain_ctx ''/about'' ?o)
          = Failed (TypeError ''option extensions must be array of strings or false'')"
    and "calls (send demo_env plain_ctx ''/about'' ?o) = [Access ''/www/about.html'']"
    by simp_all
  with j b a show ?thesis by simp
qed

text \<open>
  Claim C5 as stated fails twice on the sample site. With the list \<open>html\<close>, 3 the failure
  comes after the existence check of \<open>/www/about.html\<close>. With the list \<open>htm\<close>, 3 there is
  no failure: \<open>/www/about.htm\<close> exists and is served.
\<close>

theorem bad_extension_entry_counterexample:
  "outcome (send demo_env plain_ctx ''/about''
      (demo_opts\<lparr>opt_extensions := Some [JStr ''html'', JNum 3]\<rparr>))
     = Failed (TypeError ''option extensions must be array of strings or false'')
   \<and> calls (send demo_env plain_ctx ''/about''
        (demo_opts\<lparr>opt_extensions := Some [JStr ''html'', JNum 3]\<rparr>))
       = [Access ''/www/about.html'']
   \<and> outcome (send demo_env plain_ctx ''/about''
        (demo_opts\<lparr>opt_extensions := Some [JStr ''htm'', JNum 3]\<rparr>))
       = Resolved ''/www/about.htm''"
  by code_simp

section \<open>The \<open>Cache-Control\<close> header\<close>

text \<open>
  Claim C6, as the code has it. If the response carries a \<open>Cache-Control\<close> header with a
  value other than the empty string before the call, the \<open>setHeaders\<close> function of the
  caller, if there is one, leaves that field as it finds it, and \<open>send\<close> resolves a file,
  then the header field is the same afterwards.
\<close>

theorem cache_control_kept:
  assumes "outcome (send e ctx path opt) = Resolved q"
    and "response_get ''Cache-Control'' ctx \<noteq> []"
    and "\<forall>f h p st. opt_setHeaders opt = Hook f
           \<longrightarrow> f h p st ''cache-control'' = h ''cache-control''"
  shows "header (ctx_out (send e ctx path opt)) ''cache-control'' = header ctx ''cache-control''
    \<and> response_get ''Cache-Control'' (ctx_out (send e ctx path opt))
        = response_get ''Cache-Control'' ctx"
  using resolved_cache_control [OF assms(1,3)] assms(2)
  by (auto simp: response_get_def split: option.splits)

theorem cache_control_kept_witness:
  "outcome (send demo_env cached_ctx ''/index.html''
      (demo_opts\<lparr>opt_maxage := Some 60000, opt_setHeaders := Hook demo_hook\<rparr>))
     = Resolved ''/www/index.html''
   \<and> response_get ''Cache-Control'' cached_ctx = ''no-cache''
   \<and> response_get ''Cache-Control'' (ctx_out (send demo_env cached_ctx ''/index.html''
        (demo_opts\<lparr>opt_maxage := Some 60000, opt_setHeaders := Hook demo_hook\<rparr>)))
       = ''no-cache''"
proof -
  let ?o = "demo_opts\<lparr>opt_maxage := Some 60000, opt_setHeaders := Hook demo_hook\<rparr>"
  have r: "outcome (send demo_env cached_ctx ''/index.html'' ?o) = Resolved ''/www/index.html''"
    by code_simp
  have c: "response_get ''Cache-Control'' cached_ctx = ''no-cache''"
    by (simp add: cached_ctx_def response_get_def)
  then have n: "response_get ''Cache-Control'' cached_ctx \<noteq> []"
    by simp
  have k: "\<forall>f h p st. opt_setHeaders ?o = Hook f
             \<longrightarrow> f h p st ''cache-control'' = h ''cache-control''"
    by (simp add: demo_hook_def)
  from cache_control_kept [OF r n k] r c show ?thesis by simp
qed

text \<open>
  Claim C6 as stated fails twice on the sample site. A response that carries
  \<open>Cache-Control\<close> with the empty string as its value leaves with \<open>max-age=0\<close>: line 174
  tests the value for truthiness. And a response that carries \<open>no-cache\<close> leaves with
  \<open>max-age=0\<close> when the \<open>setHeaders\<close> function removes the field: the function runs
  first, and \<open>send\<close> then finds no value.
\<close>

theorem cache_control_replaced_counterexample:
  "header blank_ctx ''cache-control'' = Some []
   \<and> outcome (send demo_env blank_ctx ''/index.html'' demo_opts) = Resolved ''/www/index.html''
   \<and> header (ctx_out (send demo_env blank_ctx ''/index.html'' demo_opts)) ''cache-control''
       = Some ''max-age=0''
   \<and> header cached_ctx ''cache-control'' = Some ''no-cache''
   \<and> outcome (send demo_env cached_ctx ''/index.html''
        (demo_opts\<lparr>opt_setHeaders := Hook clearing_hook\<rparr>)) = Resolved ''/www/index.html''
   \<and> header (ctx_out (send demo_env cached_ctx ''/index.html''
        (demo_opts\<lparr>opt_setHeaders := Hook clearing_hook\<rparr>))) ''cache-control''
       = Some ''max-age=0''"
proof -
  have b: "header blank_ctx ''cache-control'' = Some []"
    by (simp add: blank_ctx_def)
  have c: "header cached_ctx ''cache-control'' = Some ''no-cache''"
    by (simp add: cached_ctx_def)
  have 1: "outcome (send demo_env blank_ctx ''/index.html'' demo_opts)
             = Resolved ''/www/index.html''"
    by code_simp
  have 2: "header (ctx_out (send demo_env blank_ctx ''/index.html'' demo_opts)) ''cache-control''
             = Some ''max-age=0''"
    by code_simp
  have 3: "outcome (send demo_env cached_ctx ''/index.html''
        (demo_opts\<lparr>opt_setHeaders := Hook clearing_hook\<rparr>)) = Resolved ''/www/index.html''"
    by code_simp
  have 4: "header (ctx_out (send demo_env cached_ctx ''/index.html''
        (demo_opts\<lparr>opt_setHeaders := Hook clearing_hook\<rparr>))) ''cache-control''
       = Some ''max-age=0''"
    by code_simp
  from b c 1 2 3 4 show ?thesis by simp
qed

text \<open>
  Claim C7, as the code has it. If \<open>response.get\<close> reports no \<open>Cache-Control\<close> before the
  call, the \<open>setHeaders\<close> function (if any) leaves the field as it finds it, and \<open>send\<close>
  resolves a file, then \<open>Cache-Control\<close> is \<open>max-age=\<close> followed by the quotient of the
  doubles lifetime / 1000 with the fraction dropped (towards zero) and reduced to a signed
  32-bit integer, followed by \<open>,immutable\<close> exactly when the \<open>immutable\<close> option is true.
  For a lifetime below \<open>2 ^ 53\<close> in absolute value the quotient with its fraction dropped
  is the exact one. For a lifetime from 0 up to, but not including, 2147483648000 the
  number in the header is the floor of lifetime / 1000.
\<close>

theorem cache_control_written:
  assumes "outcome (send e ctx path opt) = Resolved q"
    and "response_get ''Cache-Control'' ctx = []"
    and "\<forall>f h p st. opt_setHeaders opt = Hook f
           \<longrightarrow> f h p st ''cache-control'' = h ''cache-control''"
  shows "response_get ''Cache-Control'' (ctx_out (send e ctx path opt)) =
           ''max-age='' @ string_of_int (to_int32 (double_div_trunc (maxage_of opt) 1000))
             @ (if opt_immutable opt = Some True then '',immutable'' else [])
    \<and> (\<bar>maxage_of opt\<bar> < 2 ^ 53 \<longrightarrow>
         double_div_trunc (maxage_of opt) 1000 =
           (if maxage_of opt < 0 then - ((- maxage_of opt) div 1000)
            else maxage_of opt div 1000))
    \<and> (0 \<le> maxage_of opt \<and> maxage_of opt < 2147483648000 \<longrightarrow>
         to_int32 (double_div_trunc (maxage_of opt) 1000) = maxage_of opt div 1000)"
proof -
  have "response_get ''Cache-Control'' (ctx_out (send e ctx path opt)) =
           ''max-age='' @ string_of_int (to_int32 (double_div_trunc (maxage_of opt) 1000))
             @ (if opt_immutable opt = Some True then '',immutable'' else [])"
    using resolved_cache_control [OF assms(1,3)] assms(2)
    by (auto simp: response_get_def directives_joined split: option.splits)
  then show ?thesis
    using max_age_floor [of "maxage_of opt"] double_div_trunc_safe [of "maxage_of opt"]
    by blast
qed

theorem cache_control_written_witness:
  "outcome (send demo_env plain_ctx ''/index.html''
      (demo_opts\<lparr>opt_maxAge := Some 5999, opt_immutable := Some True,
         opt_setHeaders := Hook demo_hook\<rparr>)) = Resolved ''/www/index.html''
   \<and> response_get ''Cache-Control'' plain_ctx = []
   \<and> maxage_of (demo_opts\<lparr>opt_maxAge := Some 5999, opt_immutable := Some True,
         opt_setHeaders := Hook demo_hook\<rparr>) = 5999
   \<and> response_get ''Cache-Control'' (ctx_out (send demo_env plain_ctx ''/index.html''
        (demo_opts\<lparr>opt_maxAge := Some 5999, opt_immutable := Some True,
           opt_setHeaders := Hook demo_hook\<rparr>))) = ''max-age=5,immutable''"
proof -
  let ?o = "demo_opts\<lparr>opt_maxAge := Some 5999, opt_immutable := Some True,
              opt_setHeaders := Hook demo_hook\<rparr>"
  have r: "outcome (send demo_env plain_ctx ''/index.html'' ?o) = Resolved ''/www/index.html''"
    by code_simp
  have c: "response_get ''Cache-Control'' plain_ctx = []"
    by (simp add: response_get_def plain_ctx_def)
  have k: "\<forall>f h p st. opt_setHeaders ?o = Hook f
             \<longrightarrow> f h p st ''cache-control'' = h ''cache-control''"
    by (simp add: demo_hook_def)
  have m: "maxage_of ?o = 5999"
    by (simp add: maxage_of_def or_num_def demo_opts_def)
  have i: "opt_immutable ?o = Some True"
    by simp
  have d: "string_of_int 5 = ''5''"
    by code_simp
  note t = cache_control_written [OF r c k]
  have "to_int32 (double_div_trunc (maxage_of ?o) 1000) = maxage_of ?o div 1000"
    using conjunct2 [OF conjunct2 [OF t]] m by simp
  then have "to_int32 (double_div_trunc (maxage_of ?o) 1000) = 5"
    using m by simp
  with conjunct1 [OF t] i d
  have "response_get ''Cache-Control'' (ctx_out (send demo_env plain_ctx ''/index.html'' ?o))
          = ''max-age=5,immutable''"
    by simp
  with r c m show ?thesis by simp
qed

text \<open>
  Claim C7 as stated fails outside that range and under a \<open>setHeaders\<close> function that
  writes the field. With \<open>maxAge\<close> = -1500 the header is \<open>max-age=-1\<close>, while the floor of
  -1500 / 1000 is -2. With \<open>maxAge\<close> = 2147483648000 the header is \<open>max-age=-2147483648\<close>,
  while the floor of the quotient is 2147483648. With nothing pre-set and a \<open>setHeaders\<close>
  function that sets \<open>private\<close>, the header stays \<open>private\<close>.
\<close>

theorem cache_control_floor_counterexample:
  "outcome (send demo_env plain_ctx ''/index.html'' (demo_opts\<lparr>opt_maxAge := Some (- 1500)\<rparr>))
     = Resolved ''/www/index.html''
   \<and> response_get ''Cache-Control''
        (ctx_out (send demo_env plain_ctx ''/index.html''
           (demo_opts\<lparr>opt_maxAge := Some (- 1500)\<rparr>))) = ''max-age=-1''
   \<and> (- 1500 :: int) div 1000 = - 2
   \<and> outcome (send demo_env plain_ctx ''/index.html''
        (demo_opts\<lparr>opt_maxAge := Some 2147483648000\<rparr>)) = Resolved ''/www/index.html''
   \<and> response_get ''Cache-Control''
        (ctx_out (send demo_env plain_ctx ''/index.html''
           (demo_opts\<lparr>opt_maxAge := Some 2147483648000\<rparr>))) = ''max-age=-2147483648''
   \<and> (2147483648000 :: int) div 1000 = 2147483648
   \<and> response_get ''Cache-Control'' plain_ctx = []
   \<and> outcome (send demo_env plain_ctx ''/index.html''
        (demo_opts\<lparr>opt_setHeaders := Hook private_hook\<rparr>)) = Resolved ''/www/index.html''
   \<and> response_get ''Cache-Control''
        (ctx_out (send demo_env plain_ctx ''/index.html''
           (demo_opts\<lparr>opt_setHeaders := Hook private_hook\<rparr>))) = ''private''"
proof -
  let ?o = "demo_opts\<lparr>opt_maxAge := Some 2147483648000\<rparr>"
  have base: "outcome (send demo_env plain_ctx ''/index.html'' demo_opts)
                = Resolved ''/www/index.html''"
    by code_simp
  have r1: "outcome (send demo_env plain_ctx ''/index.html''
          (demo_opts\<lparr>opt_maxAge := Some (- 1500)\<rparr>)) = Resolved ''/www/index.html''"
    using base by (simp only: outcome_maxAge)
  have c1: "response_get ''Cache-Control''
        (ctx_out (send demo_env plain_ctx ''/index.html''
           (demo_opts\<lparr>opt_maxAge := Some (- 1500)\<rparr>))) = ''max-age=-1''"
    by code_simp
  have r2: "outcome (send demo_env plain_ctx ''/index.html'' ?o) = Resolved ''/www/index.html''"
    using base by (simp only: outcome_maxAge)
  have k: "\<forall>f h p st. opt_setHeaders ?o = Hook f
             \<longrightarrow> f h p st ''cache-control'' = h ''cache-control''"
    by (simp add: demo_opts_def)
  have m: "maxage_of ?o = 2147483648000"
    by (simp add: maxage_of_def or_num_def demo_opts_def)
  have i: "opt_immutable ?o \<noteq> Some True"
    by (simp add: demo_opts_def)
  have h: "header plain_ctx ''cache-control'' = None"
    by (simp add: plain_ctx_def)
  have w: "to_int32 (double_div_trunc 2147483648000 1000) = - 2147483648"
    using double_div_trunc_safe [of 2147483648000] by (simp add: to_int32_def)
  have d: "string_of_int (- 2147483648) = ''-2147483648''"
    by (simp add: string_of_int_def digits_of.simps digit_chars)
  from resolved_cache_control [OF r2 k] h
  have "header (ctx_out (send demo_env plain_ctx ''/index.html'' ?o)) ''cache-control''
          = Some (join_with '','' (directives ?o))"
    by simp
  then have c2: "response_get ''Cache-Control''
        (ctx_out (send demo_env plain_ctx ''/index.html'' ?o)) = ''max-age=-2147483648''"
    using i by (simp add: response_get_def directives_joined m w d)
  have p0: "response_get ''Cache-Control'' plain_ctx = []"
    by (simp add: response_get_def plain_ctx_def)
  have r3: "outcome (send demo_env plain_ctx ''/index.html''
        (demo_opts\<lparr>opt_setHeaders := Hook private_hook\<rparr>)) = Resolved ''/www/index.html''"
    by code_simp
  have c3: "response_get ''Cache-Control''
        (ctx_out (send demo_env plain_ctx ''/index.html''
           (demo_opts\<lparr>opt_setHeaders := Hook private_hook\<rparr>))) = ''private''"
    by code_simp
  from r1 c1 r2 c2 p0 r3 c3 show ?thesis by simp
qed

section \<open>Requests that leave the root\<close>

text \<open>
  Claim C1. Let the request path decode to \<open>d\<close>, and let \<open>d\<close>, taken relative to the root
  directory (the working directory when no root is configured), denote a location outside
  that directory. Then the join step refuses the path handed to it with a status 403 (or
  a status 400, when the path is also absolute or holds a NUL character), \<open>send\<close> fails
  with that very error, the context is untouched, and no file system call has been made:
  no existence check and no stat. The \<open>setHeaders\<close> option is taken to be well-typed,
  since its check comes first.
\<close>

theorem traversal_rejected:
  assumes "\<not> not_callable (opt_setHeaders opt)"
    and "decode (drop (length (parse_root path)) path) = Some d"
    and "outside_root (resolve (cwd e) (root_of e opt)) d"
  shows "\<exists>err. (err = HttpError 403 ''Forbidden'' \<or> err = HttpError 400 ''Malicious Path'')
           \<and> resolvePath (cwd e) (root_of e opt) (with_index opt (ends_with CHR ''/'' path) d)
               = Inl err
           \<and> send e ctx path opt = \<lparr>outcome = Failed err, ctx_out = ctx, calls = []\<rparr>"
proof -
  have c: "climbs 0 (split_on sep d)"
    using assms(3) by (rule outside_root_climbs)
  then have "d \<noteq> []" by auto
  with assms(2) have ne: "path \<noteq> []"
    by (auto simp: decode_def decodeURIComponent_def)
  from resolvePath_rejects [OF with_index_climbs [OF assms(2) c]]
  obtain err where e: "err = HttpError 403 ''Forbidden'' \<or> err = HttpError 400 ''Malicious Path''"
    and r: "resolvePath (cwd e) (root_of e opt) (with_index opt (ends_with CHR ''/'' path) d)
              = Inl err"
    by blast
  have "join_request e path opt = Inl err"
    using ne assms(1,2) r by (simp add: join_request_def Let_def)
  then have "send e ctx path opt = \<lparr>outcome = Failed err, ctx_out = ctx, calls = []\<rparr>"
    by (simp add: send_def)
  with e r show ?thesis by blast
qed

text \<open>On the sample site, whose root is \<open>/www\<close>, the request \<open>/../etc/passwd\<close> is refused.\<close>

theorem traversal_rejected_witness:
  "\<not> not_callable (opt_setHeaders demo_opts)
   \<and> decode (drop (length (parse_root ''/../etc/passwd'')) ''/../etc/passwd'')
       = Some ''../etc/passwd''
   \<and> outside_root (resolve (cwd demo_env) (root_of demo_env demo_opts)) ''../etc/passwd''
   \<and> send demo_env demo_ctx ''/../etc/passwd'' demo_opts
       = \<lparr>outcome = Failed (HttpError 403 ''Forbidden''), ctx_out = demo_ctx, calls = []\<rparr>"
proof -
  have h: "\<not> not_callable (opt_setHeaders demo_opts)"
    by code_simp
  have d: "decode (drop (length (parse_root ''/../etc/passwd'')) ''/../etc/passwd'')
             = Some ''../etc/passwd''"
    by code_simp
  have o: "outside_root (resolve (cwd demo_env) (root_of demo_env demo_opts)) ''../etc/passwd''"
    by code_simp
  have r: "resolvePath (cwd demo_env) (root_of demo_env demo_opts)
             (with_index demo_opts (ends_with CHR ''/'' ''/../etc/passwd'') ''../etc/passwd'')
           = Inl (HttpError 403 ''Forbidden'')"
    by code_simp
  from traversal_rejected [OF h d o, of demo_ctx] r
  have "send demo_env demo_ctx ''/../etc/passwd'' demo_opts
          = \<lparr>outcome = Failed (HttpError 403 ''Forbidden''), ctx_out = demo_ctx, calls = []\<rparr>"
    by auto
  with h d o show ?thesis by simp
qed

section \<open>Encoded and plain request paths\<close>

text \<open>
  Claim C8, as the code has it. \<open>send\<close> decodes every request path once, so a path that is
  already decoded is decoded again. Let a percent-encoder keep \<open>/\<close> and otherwise only
  ASCII characters other than \<open>%\<close>. For every path \<open>p\<close> without the character \<open>%\<close>, the
  call with the encoded form of \<open>p\<close> gives the same result as the call with \<open>p\<close> itself
  (the same outcome, context and file system calls). And every request path that does
  not decode, because of a malformed escape sequence, fails with status 400 before the
  file system is touched.
\<close>

theorem percent_encoding_roundtrip:
  assumes "\<forall>c. keep c \<longrightarrow> c \<noteq> CHR ''%'' \<and> (of_char c :: nat) < 128"
    and "keep CHR ''/''"
  shows "(utf8_string p \<and> CHR ''%'' \<notin> set p
            \<longrightarrow> send e ctx (pct_encode keep p) opt = send e ctx p opt)
    \<and> (path \<noteq> [] \<and> \<not> not_callable (opt_setHeaders opt)
          \<and> decode (drop (length (parse_root path)) path) = None
            \<longrightarrow> send e ctx path opt =
                  \<lparr>outcome = Failed (HttpError 400 ''failed to decode''),
                   ctx_out = ctx, calls = []\<rparr>)"
proof -
  have "send e ctx (pct_encode keep p) opt = send e ctx p opt"
    if "utf8_string p" and "CHR ''%'' \<notin> set p"
    using join_request_encode [OF assms that] by (simp add: send_def)
  moreover have "send e ctx path opt =
      \<lparr>outcome = Failed (HttpError 400 ''failed to decode''), ctx_out = ctx, calls = []\<rparr>"
    if "path \<noteq> []" and "\<not> not_callable (opt_setHeaders opt)"
      and "decode (drop (length (parse_root path)) path) = None"
    using that by (simp add: send_def join_request_def Let_def)
  ultimately show ?thesis by blast
qed

text \<open>On the sample site, with the encoder of \<open>encodeURI\<close>: \<open>/read me.txt\<close> and its encoded
  form are served alike, and \<open>/%zz\<close> is refused.\<close>

theorem percent_encoding_roundtrip_witness:
  "uri_unescaped CHR ''/''
   \<and> utf8_string ''/read me.txt'' \<and> CHR ''%'' \<notin> set ''/read me.txt''
   \<and> pct_encode uri_unescaped ''/read me.txt'' = ''/read%20me.txt''
   \<and> send demo_env plain_ctx ''/read%20me.txt'' demo_opts
       = send demo_env plain_ctx ''/read me.txt'' demo_opts
   \<and> outcome (send demo_env plain_ctx ''/read me.txt'' demo_opts) = Resolved ''/www/read me.txt''
   \<and> decode (drop (length (parse_root ''/%zz'')) ''/%zz'') = None
   \<and> send demo_env plain_ctx ''/%zz'' demo_opts =
        \<lparr>outcome = Failed (HttpError 400 ''failed to decode''),
         ctx_out = plain_ctx, calls = []\<rparr>"
proof -
  have k: "uri_unescaped CHR ''/''"
    by code_simp
  have u: "utf8_string ''/read me.txt''"
    by code_simp
  have n: "CHR ''%'' \<notin> set ''/read me.txt''"
    by simp
  have enc: "pct_encode uri_unescaped ''/read me.txt'' = ''/read%20me.txt''"
    by code_simp
  have r: "outcome (send demo_env plain_ctx ''/read me.txt'' demo_opts)
             = Resolved ''/www/read me.txt''"
    by code_simp
  have ne: "''/%zz'' \<noteq> []"
    by simp
  have h: "\<not> not_callable (opt_setHeaders demo_opts)"
    by code_simp
  have d: "decode (drop (length (parse_root ''/%zz'')) ''/%zz'') = None"
    by code_simp
  note t = percent_encoding_roundtrip [OF uri_unescaped_literal k]
  have 1: "send demo_env plain_ctx ''/read%20me.txt'' demo_opts
             = send demo_env plain_ctx ''/read me.txt'' demo_opts"
    using conjunct1 [OF t [of "''/read me.txt''" demo_env plain_ctx demo_opts]] u n enc by simp
  have 2: "send demo_env plain_ctx ''/%zz'' demo_opts =
        \<lparr>outcome = Failed (HttpError 400 ''failed to decode''),
         ctx_out = plain_ctx, calls = []\<rparr>"
    using conjunct2 [OF t [of _ demo_env plain_ctx demo_opts "''/%zz''"]] ne h d by blast
  from k u n enc 1 r d 2 show ?thesis by simp
qed

text \<open>
  Claim C8 as stated fails where a path holds the character \<open>%\<close>. The path \<open>/%61pp.js\<close>
  holds no malformed sequence: sent as it is, it is decoded to \<open>/app.js\<close> and served; sent
  in its encoded form \<open>/%2561pp.js\<close>, it names a file \<open>%61pp.js\<close>, which does not exist.
  The path \<open>/%zz\<close> holds a malformed sequence: sent as it is, it fails with 400; its
  encoded form \<open>/%25zz\<close> decodes and ends as a missing file, with 404. It also fails for
  an encoder that escapes \<open>/\<close>, as \<open>encodeURIComponent\<close> does: \<open>/index.html\<close> is served,
  its encoded form \<open>%2Findex.html\<close> decodes to an absolute path, which the join refuses.
\<close>

theorem percent_encoding_counterexample:
  "pct_encode uri_unescaped ''/%61pp.js'' = ''/%2561pp.js''
   \<and> outcome (send demo_env plain_ctx ''/%61pp.js'' demo_opts) = Resolved ''/www/app.js''
   \<and> outcome (send demo_env plain_ctx ''/%2561pp.js'' demo_opts)
       = Failed (StatError 404 (FsError ''ENOENT''))
   \<and> pct_encode uri_unescaped ''/%zz'' = ''/%25zz''
   \<and> outcome (send demo_env plain_ctx ''/%zz'' demo_opts)
       = Failed (HttpError 400 ''failed to decode'')
   \<and> outcome (send demo_env plain_ctx ''/%25zz'' demo_opts)
       = Failed (StatError 404 (FsError ''ENOENT''))
   \<and> pct_encode component_unescaped ''/index.html'' = ''%2Findex.html''
   \<and> outcome (send demo_env plain_ctx ''/index.html'' demo_opts) = Resolved ''/www/index.html''
   \<and> outcome (send demo_env plain_ctx ''%2Findex.html'' demo_opts)
       = Failed (HttpError 400 ''Malicious Path'')"
  by code_simp

end
